theory Spec2Isabelle
  imports Complex_Main "HOL-Library.Word"
begin

section \<open>Plane reconstruction utilities of \<^verbatim>\<open>ransac_detector.py\<close>\<close>

text \<open>
  The module works on numpy arrays and Open3D point clouds. A two-dimensional array is
  modelled as the list of its rows, a Python \<^verbatim>\<open>int\<close> as \<open>int\<close>, and every exception
  the module can raise as a value of \<open>py_error\<close>. A double is a value of \<open>pyfloat\<close>: a
  finite number, an infinity or NaN, and the arithmetic on doubles rounds to the nearest
  double. Where neither rounding nor the values that are not numbers bear on a property
  (the pairing of \<^verbatim>\<open>loss_metric\<close>, the masks of the connected components and of the
  planes), floats are reals. The library routines the module calls and does not implement
  (RANSAC plane segmentation, connected-component labelling, morphological closing) are
  parameters of the functions that call them.
\<close>

datatype py_error =
  KeyError | ZeroDivisionError | ValueError | OverflowError | IndexError | LibraryError

subsection \<open>Doubles\<close>

text \<open>
  A double is a finite real, an infinity or NaN; the two zeros are not told apart.
  \<open>round_double\<close> rounds a real to the nearest double, ties to the even significand:
  53 significant bits, the spacing \<open>2 ^ (e - 52)\<close> in the binade of exponent \<open>e\<close>, never
  finer than \<open>2 ^ -1074\<close>, and an infinity from \<open>2 ^ 1024\<close> on.
\<close>

datatype pyfloat = Fin real | PosInf | NegInf | NaN

instantiation pyfloat :: zero
begin

definition zero_pyfloat_def: "0 = Fin 0"

instance ..

end

definition round_even :: "real \<Rightarrow> int" where
  "round_even y =
     (let f = \<lfloor>y\<rfloor>; d = y - of_int f
      in if d < 1 / 2 then f else if 1 / 2 < d then f + 1 else if even f then f else f + 1)"

definition huge :: real where
  "huge = 2 powr 1024"

definition round_double :: "real \<Rightarrow> pyfloat" where
  "round_double x =
     (if x = 0 then Fin 0
      else
        let e = max \<lfloor>log 2 \<bar>x\<bar>\<rfloor> (- 1022);
            q = 2 powr (of_int e - 52);
            r = of_int (round_even (x / q)) * q
        in if huge \<le> \<bar>r\<bar> then (if 0 < x then PosInf else NegInf) else Fin r)"

text \<open>
  The operations of IEEE 754 on doubles: the exact result, rounded; NaN when an operand is
  NaN and for \<open>\<infinity> - \<infinity>\<close>, \<open>0 * \<infinity>\<close>, \<open>0 / 0\<close>, \<open>\<infinity> / \<infinity>\<close> and the root of a negative number.
  numpy divides a double by zero without raising.
\<close>

fun fl_neg :: "pyfloat \<Rightarrow> pyfloat" where
  "fl_neg (Fin a) = Fin (- a)"
| "fl_neg PosInf = NegInf"
| "fl_neg NegInf = PosInf"
| "fl_neg NaN = NaN"

fun fl_add :: "pyfloat \<Rightarrow> pyfloat \<Rightarrow> pyfloat" where
  "fl_add (Fin a) (Fin b) = round_double (a + b)"
| "fl_add NaN y = NaN"
| "fl_add x NaN = NaN"
| "fl_add PosInf NegInf = NaN"
| "fl_add NegInf PosInf = NaN"
| "fl_add PosInf y = PosInf"
| "fl_add NegInf y = NegInf"
| "fl_add x PosInf = PosInf"
| "fl_add x NegInf = NegInf"

definition fl_sub :: "pyfloat \<Rightarrow> pyfloat \<Rightarrow> pyfloat" where
  "fl_sub x y = fl_add x (fl_neg y)"

fun fl_mul :: "pyfloat \<Rightarrow> pyfloat \<Rightarrow> pyfloat" where
  "fl_mul (Fin a) (Fin b) = round_double (a * b)"
| "fl_mul NaN y = NaN"
| "fl_mul x NaN = NaN"
| "fl_mul (Fin a) PosInf = (if a = 0 then NaN else if 0 < a then PosInf else NegInf)"
| "fl_mul (Fin a) NegInf = (if a = 0 then NaN else if 0 < a then NegInf else PosInf)"
| "fl_mul PosInf (Fin b) = (if b = 0 then NaN else if 0 < b then PosInf else NegInf)"
| "fl_mul NegInf (Fin b) = (if b = 0 then NaN else if 0 < b then NegInf else PosInf)"
| "fl_mul PosInf PosInf = PosInf"
| "fl_mul NegInf NegInf = PosInf"
| "fl_mul PosInf NegInf = NegInf"
| "fl_mul NegInf PosInf = NegInf"

fun fl_div :: "pyfloat \<Rightarrow> pyfloat \<Rightarrow> pyfloat" where
  "fl_div (Fin a) (Fin b) =
     (if b = 0 then (if a = 0 then NaN else if 0 < a then PosInf else NegInf)
      else round_double (a / b))"
| "fl_div NaN y = NaN"
| "fl_div x NaN = NaN"
| "fl_div (Fin a) y = Fin 0"
| "fl_div PosInf (Fin b) = (if b < 0 then NegInf else PosInf)"
| "fl_div NegInf (Fin b) = (if b < 0 then PosInf else NegInf)"
| "fl_div x y = NaN"

fun fl_abs :: "pyfloat \<Rightarrow> pyfloat" where
  "fl_abs (Fin a) = Fin \<bar>a\<bar>"
| "fl_abs NaN = NaN"
| "fl_abs x = PosInf"

fun fl_sqrt :: "pyfloat \<Rightarrow> pyfloat" where
  "fl_sqrt (Fin a) = (if a < 0 then NaN else round_double (sqrt a))"
| "fl_sqrt PosInf = PosInf"
| "fl_sqrt x = NaN"

text \<open>The comparison \<^verbatim>\<open>x < y\<close> of two doubles: false when one of them is NaN.\<close>

fun fl_less :: "pyfloat \<Rightarrow> pyfloat \<Rightarrow> bool" where
  "fl_less (Fin a) (Fin b) = (a < b)"
| "fl_less NaN y = False"
| "fl_less x NaN = False"
| "fl_less x NegInf = False"
| "fl_less PosInf y = False"
| "fl_less x PosInf = True"
| "fl_less NegInf y = True"

definition finite_double :: "pyfloat \<Rightarrow> bool" where
  "finite_double x = (case x of Fin r \<Rightarrow> True | _ \<Rightarrow> False)"

text \<open>
  \<^verbatim>\<open>start_size * t\<close> converts the integer to a double, which raises \<^verbatim>\<open>OverflowError\<close>
  when the integer is too large, and multiplies. \<^verbatim>\<open>int(x)\<close> truncates towards zero and
  raises on an infinity and on NaN.
\<close>

definition int_to_float :: "int \<Rightarrow> py_error + pyfloat" where
  "int_to_float n =
     (case round_double (of_int n) of Fin r \<Rightarrow> Inr (Fin r) | _ \<Rightarrow> Inl OverflowError)"

definition py_mul :: "int \<Rightarrow> pyfloat \<Rightarrow> py_error + pyfloat" where
  "py_mul n t = (case int_to_float n of Inl e \<Rightarrow> Inl e | Inr f \<Rightarrow> Inr (fl_mul f t))"

fun py_int :: "pyfloat \<Rightarrow> py_error + int" where
  "py_int (Fin r) = Inr (if r \<ge> 0 then \<lfloor>r\<rfloor> else \<lceil>r\<rceil>)"
| "py_int PosInf = Inl OverflowError"
| "py_int NegInf = Inl OverflowError"
| "py_int NaN = Inl ValueError"

subsection \<open>\<^verbatim>\<open>loss_metric\<close>\<close>

text \<open>
  \<^verbatim>\<open>np.asarray(pcd.points)\<close> is an array of shape \<open>(N, 3)\<close>: a point cloud is a list of
  triples, and \<^verbatim>\<open>x[-1]\<close> is the third coordinate. Here the coordinates are finite and the
  arithmetic is exact; the function on doubles follows in the next subsection.
\<close>

type_synonym point = "real \<times> real \<times> real"

definition last_coord :: "point \<Rightarrow> real" where
  "last_coord p = snd (snd p)"

text \<open>
  The aggregations divide by \<^verbatim>\<open>len(true_arr)\<close>. That length is 0 only when the loop body
  never ran, so \<^verbatim>\<open>loss\<close> is still the Python integer 0 and \<^verbatim>\<open>0 / 0\<close> raises
  \<^verbatim>\<open>ZeroDivisionError\<close>.
\<close>

definition py_div :: "real \<Rightarrow> nat \<Rightarrow> py_error + real" where
  "py_div x n = (if n = 0 then Inl ZeroDivisionError else Inr (x / real n))"

definition rmse_agg :: "real \<Rightarrow> nat \<Rightarrow> py_error + real" where
  "rmse_agg x n = (case py_div x n of Inl e \<Rightarrow> Inl e | Inr q \<Rightarrow> Inr (sqrt q))"

definition sq_err :: "real \<Rightarrow> real \<Rightarrow> real" where
  "sq_err x y = ((x - y) * 1000) ^ 2"

definition abs_err :: "real \<Rightarrow> real \<Rightarrow> real" where
  "abs_err x y = \<bar>(x - y) * 1000\<bar>"

text \<open>The dictionary \<^verbatim>\<open>funcs\<close>: a pair (per-point error, aggregation) for each name.\<close>

definition funcs :: "string \<rightharpoonup> ((real \<Rightarrow> real \<Rightarrow> real) \<times> (real \<Rightarrow> nat \<Rightarrow> py_error + real))" where
  "funcs = [''rmse'' \<mapsto> (sq_err, rmse_agg),
            ''mae'' \<mapsto> (abs_err, py_div),
            ''mse'' \<mapsto> (sq_err, py_div)]"

text \<open>
  The loop \<^verbatim>\<open>for x, y in zip(true_arr, approx_arr): loss += funcs[func][0](x[-1], y[-1])\<close>.
  The dictionary is looked up in every iteration; a missing key raises \<^verbatim>\<open>KeyError\<close>.
\<close>

fun loss_loop :: "string \<Rightarrow> (point \<times> point) list \<Rightarrow> real \<Rightarrow> py_error + real" where
  "loss_loop func [] loss = Inr loss"
| "loss_loop func ((x, y) # ps) loss =
     (case funcs func of
        None \<Rightarrow> Inl KeyError
      | Some fg \<Rightarrow> loss_loop func ps (loss + fst fg (last_coord x) (last_coord y)))"

definition loss_metric :: "point list \<Rightarrow> point list \<Rightarrow> string \<Rightarrow> py_error + real" where
  "loss_metric true_arr approx_arr func =
     (case loss_loop func (zip true_arr approx_arr) 0 of
        Inl e \<Rightarrow> Inl e
      | Inr loss \<Rightarrow>
          (case funcs func of
             None \<Rightarrow> Inl KeyError
           | Some fg \<Rightarrow> snd fg loss (length true_arr)))"

subsection \<open>\<^verbatim>\<open>loss_metric\<close> on doubles\<close>

text \<open>
  The same function with the coordinates as doubles: a coordinate may be infinite or NaN,
  and every operation rounds. \<^verbatim>\<open>loss\<close> starts as the Python integer 0 and is a double
  from the first addition on. \<^verbatim>\<open>x ** 2\<close> is the rounded product of \<open>x\<close> with itself. The
  length of an array is below \<open>2 ^ 53\<close> and converts to a double exactly. A Python integer
  divided by 0 raises; a double divided by 0 does not.
\<close>

type_synonym fpoint = "pyfloat \<times> pyfloat \<times> pyfloat"

datatype pynum = PyInt int | NpFloat pyfloat

definition last_fcoord :: "fpoint \<Rightarrow> pyfloat" where
  "last_fcoord p = snd (snd p)"

definition fl_sq_err :: "pyfloat \<Rightarrow> pyfloat \<Rightarrow> pyfloat" where
  "fl_sq_err x y = (let d = fl_mul (fl_sub x y) (Fin 1000) in fl_mul d d)"

definition fl_abs_err :: "pyfloat \<Rightarrow> pyfloat \<Rightarrow> pyfloat" where
  "fl_abs_err x y = fl_abs (fl_mul (fl_sub x y) (Fin 1000))"

definition py_add :: "pynum \<Rightarrow> pyfloat \<Rightarrow> pynum" where
  "py_add loss v =
     (case loss of
        PyInt i \<Rightarrow> NpFloat (fl_add (round_double (of_int i)) v)
      | NpFloat a \<Rightarrow> NpFloat (fl_add a v))"

definition true_div :: "pynum \<Rightarrow> nat \<Rightarrow> py_error + pyfloat" where
  "true_div x n =
     (case x of
        PyInt i \<Rightarrow>
          if n = 0 then Inl ZeroDivisionError
          else (case round_double (of_int i / of_nat n) of
                  Fin r \<Rightarrow> Inr (Fin r)
                | _ \<Rightarrow> Inl OverflowError)
      | NpFloat a \<Rightarrow> Inr (fl_div a (Fin (of_nat n))))"

definition fl_rmse_agg :: "pynum \<Rightarrow> nat \<Rightarrow> py_error + pyfloat" where
  "fl_rmse_agg x n = (case true_div x n of Inl e \<Rightarrow> Inl e | Inr q \<Rightarrow> Inr (fl_sqrt q))"

definition fl_funcs ::
  "string \<rightharpoonup> ((pyfloat \<Rightarrow> pyfloat \<Rightarrow> pyfloat) \<times> (pynum \<Rightarrow> nat \<Rightarrow> py_error + pyfloat))" where
  "fl_funcs = [''rmse'' \<mapsto> (fl_sq_err, fl_rmse_agg),
               ''mae'' \<mapsto> (fl_abs_err, true_div),
               ''mse'' \<mapsto> (fl_sq_err, true_div)]"

fun fl_loss_loop :: "string \<Rightarrow> (fpoint \<times> fpoint) list \<Rightarrow> pynum \<Rightarrow> py_error + pynum" where
  "fl_loss_loop func [] loss = Inr loss"
| "fl_loss_loop func ((x, y) # ps) loss =
     (case fl_funcs func of
        None \<Rightarrow> Inl KeyError
      | Some fg \<Rightarrow> fl_loss_loop func ps (py_add loss (fst fg (last_fcoord x) (last_fcoord y))))"

definition loss_metric_fl :: "fpoint list \<Rightarrow> fpoint list \<Rightarrow> string \<Rightarrow> py_error + pyfloat" where
  "loss_metric_fl true_arr approx_arr func =
     (case fl_loss_loop func (zip true_arr approx_arr) (PyInt 0) of
        Inl e \<Rightarrow> Inl e
      | Inr loss \<Rightarrow>
          (case fl_funcs func of
             None \<Rightarrow> Inl KeyError
           | Some fg \<Rightarrow> snd fg loss (length true_arr)))"

subsection \<open>Two-dimensional arrays\<close>

text \<open>
  An array is the list of its rows; numpy arrays are rectangular (\<open>rect\<close>). An array
  without rows is taken to have no columns.
\<close>

definition shape :: "'a list list \<Rightarrow> nat \<times> nat" where
  "shape a = (length a, if a = [] then 0 else length (hd a))"

definition rect :: "'a list list \<Rightarrow> bool" where
  "rect a = list_all (\<lambda>r. length r = snd (shape a)) a"

text \<open>The pixels at which an array is non-zero.\<close>

definition supp :: "'a::zero list list \<Rightarrow> (nat \<times> nat) set" where
  "supp a = {(i, j). i < length a \<and> j < length (a ! i) \<and> a ! i ! j \<noteq> 0}"

text \<open>
  \<^verbatim>\<open>np.where(a)\<close>: the positions of the non-zero entries in row-major order; the source
  reads the row indices as \<^verbatim>\<open>ls[0]\<close> and the column indices as \<^verbatim>\<open>ls[1]\<close>.
\<close>

definition np_where :: "'a::zero list list \<Rightarrow> (nat \<times> nat) list" where
  "np_where a =
     concat (map (\<lambda>i. map (\<lambda>j. (i, j)) (filter (\<lambda>j. a ! i ! j \<noteq> 0) [0..<length (a ! i)]))
                 [0..<length a])"

definition np_zeros :: "nat \<times> nat \<Rightarrow> 'a::zero list list" where
  "np_zeros s = replicate (fst s) (replicate (snd s) 0)"

text \<open>
  Element-wise binary operations broadcast: two axis lengths agree when they are equal or
  one of them is 1, and the axis of length 1 is repeated. Anything else raises
  \<^verbatim>\<open>ValueError\<close>.
\<close>

definition bdim :: "nat \<Rightarrow> nat \<Rightarrow> nat option" where
  "bdim m n = (if m = n then Some m else if m = 1 then Some n else if n = 1 then Some m else None)"

definition bidx :: "nat \<Rightarrow> nat \<Rightarrow> nat" where
  "bidx n i = (if n = 1 then 0 else i)"

definition broadcast :: "('a \<Rightarrow> 'b \<Rightarrow> 'c) \<Rightarrow> 'a list list \<Rightarrow> 'b list list \<Rightarrow> py_error + 'c list list" where
  "broadcast f a b =
     (case bdim (fst (shape a)) (fst (shape b)) of
        None \<Rightarrow> Inl ValueError
      | Some r \<Rightarrow>
          (case bdim (snd (shape a)) (snd (shape b)) of
             None \<Rightarrow> Inl ValueError
           | Some c \<Rightarrow>
               Inr (map (\<lambda>i. map (\<lambda>j. f (a ! bidx (fst (shape a)) i ! bidx (snd (shape a)) j)
                                         (b ! bidx (fst (shape b)) i ! bidx (snd (shape b)) j))
                                  [0..<c])
                        [0..<r])))"

text \<open>
  Indexing a one-dimensional array with a list of integers: a negative index counts from
  the end, an index out of range raises \<^verbatim>\<open>IndexError\<close>.
\<close>

definition np_index :: "'a list \<Rightarrow> int \<Rightarrow> py_error + 'a" where
  "np_index xs i =
     (if 0 \<le> i \<and> i < int (length xs) then Inr (xs ! nat i)
      else if i < 0 \<and> - int (length xs) \<le> i then Inr (xs ! nat (i + int (length xs)))
      else Inl IndexError)"

fun np_take :: "'a list \<Rightarrow> int list \<Rightarrow> py_error + 'a list" where
  "np_take xs [] = Inr []"
| "np_take xs (i # is) =
     (case np_index xs i of
        Inl e \<Rightarrow> Inl e
      | Inr v \<Rightarrow> (case np_take xs is of Inl e \<Rightarrow> Inl e | Inr vs \<Rightarrow> Inr (v # vs)))"

text \<open>The assignment \<^verbatim>\<open>a[x, y] = v\<close> for index arrays \<open>x\<close> and \<open>y\<close>.\<close>

definition put :: "'a list list \<Rightarrow> nat \<times> nat \<Rightarrow> 'a \<Rightarrow> 'a list list" where
  "put a p v = a[fst p := (a ! fst p)[snd p := v]]"

definition np_assign :: "'a list list \<Rightarrow> nat list \<Rightarrow> nat list \<Rightarrow> 'a \<Rightarrow> 'a list list" where
  "np_assign a x y v = fold (\<lambda>p b. put b p v) (zip x y) a"

subsection \<open>\<^verbatim>\<open>crop_depth_map\<close>\<close>

text \<open>
  The depth map is an array of doubles or an array of integers; other element types are
  not modelled. The threshold is a callable, applied to the positive entries of the
  inverse depths, or a number.
\<close>

datatype ndarray = Float64 "pyfloat list list" | Int64 "int list list"

datatype threshold = Callable "pyfloat list \<Rightarrow> py_error + pyfloat" | Number pyfloat

text \<open>The function that is vectorized, \<^verbatim>\<open>lambda x: 1 / x if x > 0 else x\<close>, on a double.\<close>

definition inv_depth :: "pyfloat \<Rightarrow> pyfloat" where
  "inv_depth x = (if fl_less 0 x then fl_div (Fin 1) x else x)"

text \<open>
  \<^verbatim>\<open>np.vectorize\<close> without \<^verbatim>\<open>otypes\<close> calls the function on the first element to find
  the element type of the result, and raises \<^verbatim>\<open>ValueError\<close> on an array of size 0. On
  doubles the result is an array of doubles. On integers the first element decides: when
  it is positive its image \<open>1 / x\<close> is a double, and every result is converted to a double;
  when it is not, its image is the integer itself, and every result is converted to an
  integer, which truncates the quotients \<open>1 / x\<close>.
\<close>

definition vect_func :: "ndarray \<Rightarrow> py_error + ndarray" where
  "vect_func depth_map =
     (case depth_map of
        Float64 a \<Rightarrow>
          if concat a = [] then Inl ValueError else Inr (Float64 (map (map inv_depth) a))
      | Int64 a \<Rightarrow>
          if concat a = [] then Inl ValueError
          else if 0 < hd (concat a)
          then Inr (Float64 (map (map (\<lambda>x. if 0 < x then fl_div (Fin 1) (round_double (of_int x))
                                           else round_double (of_int x))) a))
          else Inr (Int64 (map (map (\<lambda>x. if 0 < x then \<lfloor>1 / real_of_int x\<rfloor> else x)) a)))"

text \<open>\<^verbatim>\<open>arr[arr > 0]\<close> on the flattened array: the positive entries, as numbers.\<close>

definition positives :: "ndarray \<Rightarrow> pyfloat list" where
  "positives tmp =
     (case tmp of
        Float64 a \<Rightarrow> filter (fl_less 0) (concat a)
      | Int64 a \<Rightarrow> map (\<lambda>x. Fin (of_int x)) (filter (\<lambda>x. 0 < x) (concat a)))"

definition cutoff :: "ndarray \<Rightarrow> threshold \<Rightarrow> py_error + pyfloat" where
  "cutoff tmp threshold =
     (case threshold of
        Callable f \<Rightarrow> f (positives tmp)
      | Number t \<Rightarrow> Inr t)"

text \<open>\<^verbatim>\<open>np.where(tmp < t, tmp, 0)\<close>, which keeps the element type of \<^verbatim>\<open>tmp\<close>.\<close>

definition where_less :: "ndarray \<Rightarrow> pyfloat \<Rightarrow> ndarray" where
  "where_less tmp t =
     (case tmp of
        Float64 a \<Rightarrow> Float64 (map (map (\<lambda>v. if fl_less v t then v else 0)) a)
      | Int64 a \<Rightarrow> Int64 (map (map (\<lambda>v. if fl_less (Fin (of_int v)) t then v else 0)) a))"

text \<open>\<^verbatim>\<open>len(np.argwhere(ans))\<close>: the number of non-zero entries; NaN is not zero.\<close>

definition count_nonzero :: "ndarray \<Rightarrow> nat" where
  "count_nonzero ans =
     (case ans of Float64 a \<Rightarrow> length (np_where a) | Int64 a \<Rightarrow> length (np_where a))"

definition crop_depth_map :: "ndarray \<Rightarrow> threshold \<Rightarrow> py_error + (ndarray \<times> nat)" where
  "crop_depth_map depth_map threshold =
     (case vect_func depth_map of
        Inl e \<Rightarrow> Inl e
      | Inr tmp \<Rightarrow>
          (case cutoff tmp threshold of
             Inl e \<Rightarrow> Inl e
           | Inr t \<Rightarrow>
               let ans = where_less tmp t
               in Inr (ans, count_nonzero ans)))"

subsection \<open>\<^verbatim>\<open>get_connected_components\<close>\<close>

text \<open>
  \<^verbatim>\<open>cv2.connectedComponents\<close> is a parameter: from the binary image it gives the number
  of labels and the array of labels, or fails. The loop runs over the labels
  \<^verbatim>\<open>range(1, num)\<close>; the conversion to 32-bit floats is not modelled.
\<close>

type_synonym labelling = "8 word list list \<Rightarrow> py_error + (int \<times> int list list)"

type_synonym component = "real list list \<times> int list list"

definition binarize :: "real list list \<Rightarrow> 8 word list list" where
  "binarize depth_map = map (map (\<lambda>x. if x > 0 then 1 else 0)) depth_map"

definition label_mask :: "int list list \<Rightarrow> int \<Rightarrow> int list list" where
  "label_mask result i = map (map (\<lambda>l. if l = i then 1 else 0)) result"

fun components_loop ::
  "real list list \<Rightarrow> int list list \<Rightarrow> real \<Rightarrow> nat \<Rightarrow> int list \<Rightarrow> component list
     \<Rightarrow> py_error + component list" where
  "components_loop depth_map result threshold count_pixels [] ans = Inr ans"
| "components_loop depth_map result threshold count_pixels (i # is) ans =
     (let map_arr = label_mask result i
      in if real_of_int (sum_list (concat map_arr)) \<ge> threshold * real count_pixels
         then (case broadcast (\<lambda>x m. x * real_of_int m) depth_map map_arr of
                 Inl e \<Rightarrow> Inl e
               | Inr masked \<Rightarrow>
                   components_loop depth_map result threshold count_pixels is
                     (ans @ [(masked, map_arr)]))
         else components_loop depth_map result threshold count_pixels is ans)"

definition get_connected_components ::
  "labelling \<Rightarrow> real list list \<Rightarrow> real \<Rightarrow> py_error + component list" where
  "get_connected_components connectedComponents depth_map threshold =
     (let arr = binarize depth_map;
          count_pixels = sum_list (map unat (concat arr))
      in (case connectedComponents arr of
            Inl e \<Rightarrow> Inl e
          | Inr (num, result) \<Rightarrow>
              components_loop depth_map result threshold count_pixels [1..num - 1] []))"

subsection \<open>\<^verbatim>\<open>close_map\<close>\<close>

text \<open>
  \<^verbatim>\<open>cv2.morphologyEx(src, cv2.MORPH_CLOSE, kernel)\<close> is a parameter. The list of closings
  is built first, then reduced with \<^verbatim>\<open>np.logical_and\<close> from \<^verbatim>\<open>np.ones(map_arr.shape)\<close>.
  The result is an array of truth values; the array of ones returned for an empty kernel
  list is all true.
\<close>

type_synonym closing = "8 word list list \<Rightarrow> 8 word list list \<Rightarrow> py_error + 8 word list list"

definition np_uint8 :: "int list list \<Rightarrow> 8 word list list" where
  "np_uint8 a = map (map word_of_int) a"

definition default_kernels :: "8 word list list list" where
  "default_kernels = [replicate 100 (replicate 10 1), replicate 10 (replicate 100 1)]"

fun closings :: "closing \<Rightarrow> 8 word list list \<Rightarrow> 8 word list list list \<Rightarrow> py_error + 8 word list list list" where
  "closings morphologyEx src [] = Inr []"
| "closings morphologyEx src (k # ks) =
     (case morphologyEx src k of
        Inl e \<Rightarrow> Inl e
      | Inr c \<Rightarrow>
          (case closings morphologyEx src ks of Inl e \<Rightarrow> Inl e | Inr cs \<Rightarrow> Inr (c # cs)))"

fun reduce_and :: "bool list list \<Rightarrow> 8 word list list list \<Rightarrow> py_error + bool list list" where
  "reduce_and acc [] = Inr acc"
| "reduce_and acc (c # cs) =
     (case broadcast (\<lambda>p q. p \<and> q \<noteq> 0) acc c of
        Inl e \<Rightarrow> Inl e
      | Inr acc' \<Rightarrow> reduce_and acc' cs)"

definition close_map ::
  "closing \<Rightarrow> int list list \<Rightarrow> 8 word list list list option \<Rightarrow> py_error + bool list list" where
  "close_map morphologyEx map_arr kernels =
     (let ks = (case kernels of None \<Rightarrow> default_kernels | Some ks \<Rightarrow> ks)
      in (case closings morphologyEx (np_uint8 map_arr) ks of
            Inl e \<Rightarrow> Inl e
          | Inr ls_closings \<Rightarrow>
              reduce_and (replicate (fst (shape map_arr)) (replicate (snd (shape map_arr)) True))
                ls_closings))"

subsection \<open>\<^verbatim>\<open>_get_plane_from_pcd\<close>\<close>

text \<open>
  Open3D's \<^verbatim>\<open>PointCloud.create_from_depth_image\<close> and \<^verbatim>\<open>segment_plane\<close> are parameters.
  RANSAC draws random samples, so the segmentation also takes the number of the call.
  It gives the plane coefficients and the indices of the inliers in the point cloud.
  \<^verbatim>\<open>np.max\<close> of an array of size 0 raises \<^verbatim>\<open>ValueError\<close>.
\<close>

type_synonym plane = "real list"

type_synonym back_projection = "real list list \<Rightarrow> point list"

type_synonym segmentation = "nat \<Rightarrow> point list \<Rightarrow> real \<Rightarrow> py_error + (plane \<times> int list)"

definition transform :: "point list \<Rightarrow> point list" where
  "transform pts = map (\<lambda>(x, y, z). (x, - y, - z)) pts"

definition coords :: "point list \<Rightarrow> real list" where
  "coords pts = concat (map (\<lambda>(x, y, z). [x, y, z]) pts)"

definition get_plane_from_pcd ::
  "back_projection \<Rightarrow> segmentation \<Rightarrow> nat \<Rightarrow> real list list \<Rightarrow> py_error + (plane \<times> int list)" where
  "get_plane_from_pcd create_from_depth_image segment_plane k depth_map =
     (let pcd = transform (create_from_depth_image depth_map);
          arr = coords pcd
      in if arr = [] then Inl ValueError
         else
           let th = \<bar>Max (set arr) - Min (set arr)\<bar> / 100
           in segment_plane k pcd th)"

subsection \<open>\<^verbatim>\<open>extract_planes_con\<close>\<close>

text \<open>
  Arrays are objects: the store is the list of the arrays allocated so far, and an array
  is referred to by its position in the store. \<^verbatim>\<open>copy.deepcopy\<close> and \<^verbatim>\<open>np.zeros\<close>
  allocate, the indexed assignments write in place. The product
  \<^verbatim>\<open>depth_map * curr_map_arr\<close> is a temporary that only the plane fit reads.
\<close>

type_synonym heap = "real list list list"

datatype 'a outcome = Returns 'a | Raises py_error | OutOfFuel

text \<open>
  The bound \<^verbatim>\<open>int(start_size * t)\<close> and the loop condition
  \<^verbatim>\<open>count >= int(start_size * t)\<close>.
\<close>

definition loop_bound :: "int \<Rightarrow> pyfloat \<Rightarrow> py_error + int" where
  "loop_bound start_size t =
     (case py_mul start_size t of Inl e \<Rightarrow> Inl e | Inr p \<Rightarrow> py_int p)"

definition loop_continues :: "int \<Rightarrow> pyfloat \<Rightarrow> int \<Rightarrow> py_error + bool" where
  "loop_continues start_size t count =
     (case loop_bound start_size t of
        Inl e \<Rightarrow> Inl e
      | Inr bound \<Rightarrow> Inr (count \<ge> bound))"

text \<open>
  One run of the loop body on the store: the new store, and either the exception raised or
  the pair appended to \<^verbatim>\<open>result\<close> with \<^verbatim>\<open>len(inliers)\<close>.
\<close>

definition plane_step ::
  "back_projection \<Rightarrow> segmentation \<Rightarrow> nat \<Rightarrow> heap \<Rightarrow> nat \<Rightarrow> nat
     \<Rightarrow> heap \<times> (py_error + ((nat \<times> plane) \<times> nat))" where
  "plane_step create_from_depth_image segment_plane k h depth_map curr_map_arr =
     (case broadcast (*) (h ! depth_map) (h ! curr_map_arr) of
        Inl e \<Rightarrow> (h, Inl e)
      | Inr masked \<Rightarrow>
          (case get_plane_from_pcd create_from_depth_image segment_plane k masked of
             Inl e \<Rightarrow> (h, Inl e)
           | Inr (plane_model, inliers) \<Rightarrow>
               let ls = np_where (h ! curr_map_arr);
                   ans = length h;
                   h1 = h @ [np_zeros (shape (h ! curr_map_arr))]
               in (case np_take (map fst ls) inliers of
                     Inl e \<Rightarrow> (h1, Inl e)
                   | Inr x \<Rightarrow>
                       (case np_take (map snd ls) inliers of
                          Inl e \<Rightarrow> (h1, Inl e)
                        | Inr y \<Rightarrow>
                            let h2 = h1[curr_map_arr := np_assign (h1 ! curr_map_arr) x y 0];
                                h3 = h2[ans := np_assign (h2 ! ans) x y 1]
                            in (h3, Inr ((ans, plane_model), length inliers))))))"

text \<open>
  The \<^verbatim>\<open>while\<close> loop, with fuel: one unit for each evaluation of the condition.
  \<open>OutOfFuel\<close> is the loop still running.
\<close>

fun extract_loop ::
  "back_projection \<Rightarrow> segmentation \<Rightarrow> nat \<Rightarrow> nat \<Rightarrow> heap \<Rightarrow> nat \<Rightarrow> nat \<Rightarrow> int \<Rightarrow> pyfloat
     \<Rightarrow> int \<Rightarrow> (nat \<times> plane) list \<Rightarrow> heap \<times> (nat \<times> plane) list outcome" where
  "extract_loop cr sg 0 k h depth_map curr_map_arr start_size t count result = (h, OutOfFuel)"
| "extract_loop cr sg (Suc fuel) k h depth_map curr_map_arr start_size t count result =
     (case loop_continues start_size t count of
        Inl e \<Rightarrow> (h, Raises e)
      | Inr False \<Rightarrow> (h, Returns result)
      | Inr True \<Rightarrow>
          (case plane_step cr sg k h depth_map curr_map_arr of
             (h', Inl e) \<Rightarrow> (h', Raises e)
           | (h', Inr (entry, n)) \<Rightarrow>
               extract_loop cr sg fuel (Suc k) h' depth_map curr_map_arr start_size t
                 (count - int n) (result @ [entry])))"

definition extract_planes_con ::
  "back_projection \<Rightarrow> segmentation \<Rightarrow> nat \<Rightarrow> heap \<Rightarrow> nat \<Rightarrow> nat \<Rightarrow> int \<Rightarrow> pyfloat
     \<Rightarrow> heap \<times> (nat \<times> plane) list outcome" where
  "extract_planes_con cr sg fuel h map_arr depth_map start_size t =
     (let curr_map_arr = length h;
          h0 = h @ [h ! map_arr]
      in extract_loop cr sg fuel 0 h0 depth_map curr_map_arr start_size t start_size [])"

text \<open>
  The invariant of the loop, for a set \<open>U\<close> of pixels: the working copy and the masks
  recorded so far are distinct arrays whose supports lie in \<open>U\<close>, and the supports of the
  masks are disjoint from each other and from the support of the working copy.
\<close>

definition planes_inv :: "(nat \<times> nat) set \<Rightarrow> heap \<Rightarrow> nat \<Rightarrow> (nat \<times> plane) list \<Rightarrow> bool" where
  "planes_inv U h c result \<longleftrightarrow>
     c < length h \<and> supp (h ! c) \<subseteq> U \<and>
     (\<forall>e\<in>set result. fst e < length h \<and> fst e \<noteq> c \<and> supp (h ! fst e) \<subseteq> U \<and>
        supp (h ! fst e) \<inter> supp (h ! c) = {}) \<and>
     (\<forall>i<length result. \<forall>j<length result. i \<noteq> j \<longrightarrow>
        supp (h ! fst (result ! i)) \<inter> supp (h ! fst (result ! j)) = {})"

subsection \<open>Collaborators for running examples\<close>

text \<open>
  Simple instances of the two Open3D routines, on which the model is run in the examples
  below: a back-projection that makes one point of every pixel of positive depth, and
  segmentations that report the first point, or no point, as the inliers of a fixed plane.
\<close>

definition example_cloud :: back_projection where
  "example_cloud a =
     map (\<lambda>p. (real (snd p), real (fst p), a ! fst p ! snd p))
         (filter (\<lambda>p. a ! fst p ! snd p > 0) (np_where a))"

definition example_first_inlier :: segmentation where
  "example_first_inlier k pcd th = Inr ([0, 0, 1, 0], [0])"

definition example_no_inlier :: segmentation where
  "example_no_inlier k pcd th = Inr ([0, 0, 1, 0], [])"

section \<open>Rounding to a double\<close>

lemma round_even_of_int: "round_even (of_int i) = i"
  by (simp add: round_even_def)

lemma round_double_zero: "round_double 0 = Fin 0"
  by (simp add: round_double_def)

text \<open>A number \<open>m * 2 ^ k\<close> with \<open>|m| < 2 ^ 53\<close> and \<open>k\<close> in range is a double: it rounds to itself.\<close>

lemma round_double_exact:
  assumes x: "x = of_int m * 2 powr of_int k" and m: "\<bar>m\<bar> < 2 ^ 53"
    and k: "- 1074 \<le> k" "k \<le> 971"
  shows "round_double x = Fin x"
proof (cases "m = 0")
  case True
  with x show ?thesis by (simp add: round_double_def)
next
  case False
  then have x0: "x \<noteq> 0" using x by simp
  have ax: "\<bar>x\<bar> = of_int \<bar>m\<bar> * 2 powr of_int k" using x by (simp add: abs_mult)
  have "of_int \<bar>m\<bar> < (2 :: real) ^ 53" using m by (metis of_int_less_numeral_power_cancel_iff)
  then have "of_int \<bar>m\<bar> < (2 :: real) powr 53" by simp
  then have lt: "\<bar>x\<bar> < 2 powr (53 + of_int k)"
    unfolding ax by (simp add: powr_add)
  define e0 where "e0 = \<lfloor>log 2 \<bar>x\<bar>\<rfloor>"
  have "log 2 \<bar>x\<bar> < 53 + of_int k"
    using lt x0 by (simp add: log_less_iff)
  then have "e0 < 53 + k" unfolding e0_def by (simp add: floor_less_iff)
  define e where "e = max e0 (- 1022)"
  have e: "e \<le> 52 + k" using \<open>e0 < 53 + k\<close> k by (simp add: e_def)
  define j where "j = nat (k + 52 - e)"
  have j: "int j = k + 52 - e" using e by (simp add: j_def)
  define q :: real where "q = 2 powr (of_int e - 52)"
  have qpos: "0 < q" by (simp add: q_def)
  have "2 powr of_int k = (2 :: real) powr (of_int (int j)) * q"
    unfolding q_def j by (simp flip: powr_add)
  also have "(2 :: real) powr (of_int (int j)) = 2 ^ j"
    by (simp add: powr_realpow)
  finally have kq: "2 powr of_int k = 2 ^ j * q" .
  have xq: "x / q = of_int (m * 2 ^ j)" using qpos by (simp add: x kq)
  have r: "of_int (round_even (x / q)) * q = x"
    unfolding xq round_even_of_int using qpos by (simp add: x kq)
  have "(2 :: real) powr (53 + of_int k) \<le> 2 powr 1024"
    by (rule powr_mono) (use k in simp_all)
  with lt have small: "\<not> huge \<le> \<bar>x\<bar>" unfolding huge_def by linarith
  show ?thesis
    using x0 r small
    by (simp add: round_double_def Let_def flip: e0_def e_def q_def)
qed

lemma round_double_int: "\<bar>n\<bar> < 2 ^ 53 \<Longrightarrow> round_double (of_int n) = Fin (of_int n)"
  by (rule round_double_exact[where m = n and k = 0]) simp_all

lemma round_double_dyadic:
  "\<bar>m\<bar> < 2 ^ 53 \<Longrightarrow> j \<le> 1074 \<Longrightarrow> round_double (of_int m / 2 ^ j) = Fin (of_int m / 2 ^ j)"
  by (rule round_double_exact[where m = m and k = "- int j"])
     (simp_all add: powr_minus powr_realpow divide_inverse)

text \<open>The doubles of the examples.\<close>

lemma round_double_values:
  "round_double 1 = Fin 1"
  "round_double 2 = Fin 2"
  "round_double 3 = Fin 3"
  "round_double (1 / 2) = Fin (1 / 2)"
  "round_double (- (1 / 2)) = Fin (- (1 / 2))"
  "round_double (3 / 2) = Fin (3 / 2)"
  "round_double (1 / 4) = Fin (1 / 4)"
  using round_double_int[of 1] round_double_int[of 2] round_double_int[of 3]
    round_double_dyadic[of 1 1] round_double_dyadic[of "- 1" 1] round_double_dyadic[of 3 1]
    round_double_dyadic[of 1 2]
  by simp_all



section \<open>Properties of \<^verbatim>\<open>loss_metric\<close>\<close>

lemma funcs_None_iff: "funcs func = None \<longleftrightarrow> func \<notin> {''rmse'', ''mae'', ''mse''}"
  by (simp add: funcs_def)

lemma loss_loop_supported:
  "funcs func = Some fg \<Longrightarrow>
   loss_loop func ps loss =
     Inr (loss + sum_list (map (\<lambda>p. fst fg (last_coord (fst p)) (last_coord (snd p))) ps))"
  by (induction ps arbitrary: loss) (auto simp: algebra_simps)

lemma loss_loop_unsupported:
  "funcs func = None \<Longrightarrow> loss_loop func ps loss = (if ps = [] then Inr loss else Inl KeyError)"
  by (cases ps) auto

lemma sum_list_zip_nth:
  "sum_list (map h (zip xs ys)) =
   sum_list (map (\<lambda>i. h (xs ! i, ys ! i)) [0..<min (length xs) (length ys)])"
proof -
  have "zip xs ys = map (\<lambda>i. (xs ! i, ys ! i)) [0..<min (length xs) (length ys)]"
    by (rule nth_equalityI) auto
  then show ?thesis by (simp add: comp_def)
qed

lemma loss_metric_unsupported:
  "funcs func = None \<Longrightarrow> loss_metric t a func = Inl KeyError"
  by (simp add: loss_metric_def loss_loop_unsupported)

lemma loss_metric_supported:
  "funcs func = Some fg \<Longrightarrow>
   loss_metric t a func =
     snd fg (sum_list (map (\<lambda>i. fst fg (last_coord (t ! i)) (last_coord (a ! i)))
                [0..<min (length t) (length a)])) (length t)"
  by (simp add: loss_metric_def loss_loop_supported sum_list_zip_nth)

lemma supported_returns:
  "funcs func = Some fg \<Longrightarrow> n \<noteq> 0 \<Longrightarrow> \<exists>v. snd fg x n = Inr v"
  by (auto simp: funcs_def py_div_def rmse_agg_def split: if_splits)

text \<open>
  C4, as amended. For a supported name and a non-empty true cloud, \<^verbatim>\<open>loss_metric\<close>
  returns a number: the aggregation of the name, applied to the sum of the per-point
  errors of the pairs \<open>(true_arr ! i, approx_arr ! i)\<close> for \<open>i\<close> below the shorter of the
  two lengths, and to the length of the true cloud. No length mismatch raises.
\<close>

theorem loss_metric_truncates_to_shorter:
  assumes "func \<in> {''rmse'', ''mae'', ''mse''}" and "true_arr \<noteq> []"
  shows "\<exists>f g v. funcs func = Some (f, g) \<and>
           loss_metric true_arr approx_arr func =
             g (\<Sum>i\<leftarrow>[0..<min (length true_arr) (length approx_arr)].
                  f (last_coord (true_arr ! i)) (last_coord (approx_arr ! i))) (length true_arr) \<and>
           loss_metric true_arr approx_arr func = Inr v"
proof -
  from assms(1) obtain f g where fg: "funcs func = Some (f, g)"
    using funcs_None_iff[of func] by (cases "funcs func") auto
  from supported_returns[OF fg] assms(2) loss_metric_supported[OF fg, of true_arr approx_arr]
  show ?thesis using fg by fastforce
qed

theorem loss_metric_truncates_to_shorter_witness:
  "''mae'' \<in> {''rmse'', ''mae'', ''mse''} \<and> [(0, 0, 1), (0, 0, 3)] \<noteq> ([] :: point list) \<and>
   (\<exists>f g v. funcs ''mae'' = Some (f, g) \<and>
      loss_metric [(0, 0, 1), (0, 0, 3)] [(0, 0, 2)] ''mae'' =
        g (\<Sum>i\<leftarrow>[0..<min (length [(0, 0, 1), (0, 0, 3 :: real)]) (length [(0 :: real, 0 :: real, 2 :: real)])].
             f (last_coord ([(0, 0, 1), (0, 0, 3)] ! i)) (last_coord ([(0, 0, 2)] ! i)))
          (length [(0 :: real, 0 :: real, 1 :: real), (0, 0, 3)]) \<and>
      loss_metric [(0, 0, 1), (0, 0, 3)] [(0, 0, 2)] ''mae'' = Inr v)"
  using loss_metric_truncates_to_shorter [of "''mae''" "[(0, 0, 1), (0, 0, 3)]" "[(0, 0, 2)]"]
  by simp

text \<open>
  C4 as stated fails: with an empty true cloud and a longer approximation the call
  raises \<^verbatim>\<open>ZeroDivisionError\<close>.
\<close>

theorem loss_metric_empty_true_mismatch_raises:
  "loss_metric [] [(0, 0, 1)] ''mae'' = Inl ZeroDivisionError"
  by (simp add: loss_metric_def funcs_def py_div_def)

text \<open>
  C8, as amended. A name other than the three supported ones raises \<^verbatim>\<open>KeyError\<close>, for
  all clouds; with a supported name and a non-empty true cloud the call returns a number.
\<close>

theorem loss_metric_unknown_name_raises:
  "(func \<notin> {''rmse'', ''mae'', ''mse''} \<longrightarrow> loss_metric t a func = Inl KeyError) \<and>
   (func \<in> {''rmse'', ''mae'', ''mse''} \<longrightarrow> t \<noteq> [] \<longrightarrow> (\<exists>v. loss_metric t a func = Inr v))"
proof (intro conjI impI)
  assume "func \<notin> {''rmse'', ''mae'', ''mse''}"
  then show "loss_metric t a func = Inl KeyError"
    using funcs_None_iff[of func] loss_metric_unsupported by blast
next
  assume s: "func \<in> {''rmse'', ''mae'', ''mse''}" and ne: "t \<noteq> []"
  from s obtain fg where fg: "funcs func = Some fg"
    using funcs_None_iff[of func] by (cases "funcs func") auto
  from supported_returns[OF fg, of "length t"] ne loss_metric_supported[OF fg, of t a]
  show "\<exists>v. loss_metric t a func = Inr v" by simp
qed

theorem loss_metric_unknown_name_raises_witness:
  "''max'' \<notin> {''rmse'', ''mae'', ''mse''} \<and>
   loss_metric [(0, 0, 1)] [(0, 0, 2)] ''max'' = Inl KeyError \<and>
   ''mse'' \<in> {''rmse'', ''mae'', ''mse''} \<and> [(0, 0, 1)] \<noteq> ([] :: point list) \<and>
   (\<exists>v. loss_metric [(0, 0, 1)] [(0, 0, 2)] ''mse'' = Inr v)"
  using loss_metric_unknown_name_raises [of "''max''" "[(0, 0, 1)]" "[(0, 0, 2)]"]
        loss_metric_unknown_name_raises [of "''mse''" "[(0, 0, 1)]" "[(0, 0, 2)]"]
  by simp

text \<open>
  C8 as stated fails in its second half: a supported name on empty clouds does not
  return, it raises \<^verbatim>\<open>ZeroDivisionError\<close>.
\<close>

theorem loss_metric_supported_name_raises:
  "loss_metric [] [] ''mse'' = Inl ZeroDivisionError"
  by (simp add: loss_metric_def funcs_def py_div_def)

section \<open>Properties of \<^verbatim>\<open>loss_metric\<close> on doubles\<close>

lemma fl_sq_err_self: "fl_sq_err z z = (if finite_double z then Fin 0 else NaN)"
  by (cases z) (simp_all add: fl_sq_err_def fl_sub_def finite_double_def round_double_zero)

lemma py_add_zero:
  "py_add (PyInt 0) (Fin 0) = NpFloat (Fin 0)"
  "py_add (NpFloat (Fin 0)) (Fin 0) = NpFloat (Fin 0)"
  "py_add (PyInt 0) NaN = NpFloat NaN"
  "py_add (NpFloat (Fin 0)) NaN = NpFloat NaN"
  "py_add (NpFloat NaN) v = NpFloat NaN"
  by (simp_all add: py_add_def round_double_zero)

lemma fl_funcs_rmse: "fl_funcs ''rmse'' = Some (fl_sq_err, fl_rmse_agg)"
  by (simp add: fl_funcs_def)

lemma fl_loss_loop_nan:
  "fl_loss_loop ''rmse'' (map (\<lambda>p. (p, p)) ps) (NpFloat NaN) = Inr (NpFloat NaN)"
  by (induction ps) (simp_all add: fl_funcs_rmse py_add_zero)

lemma fl_loss_loop_self:
  assumes "acc = PyInt 0 \<or> acc = NpFloat (Fin 0)" and "ps \<noteq> []"
  shows "fl_loss_loop ''rmse'' (map (\<lambda>p. (p, p)) ps) acc =
           Inr (NpFloat (if \<forall>p\<in>set ps. finite_double (last_fcoord p) then Fin 0 else NaN))"
  using assms
proof (induction ps arbitrary: acc)
  case Nil
  then show ?case by simp
next
  case (Cons p ps)
  show ?case
  proof (cases "finite_double (last_fcoord p)")
    case False
    with Cons.prems(1) show ?thesis
      by (auto simp: fl_funcs_rmse fl_sq_err_self py_add_zero fl_loss_loop_nan)
  next
    case True
    with Cons.prems(1)
    have step: "py_add acc (fl_sq_err (last_fcoord p) (last_fcoord p)) = NpFloat (Fin 0)"
      by (auto simp: fl_sq_err_self py_add_zero)
    show ?thesis
    proof (cases "ps = []")
      case True
      with \<open>finite_double (last_fcoord p)\<close> step show ?thesis
        by (simp add: fl_funcs_rmse)
    next
      case False
      from Cons.IH[OF _ False, of "NpFloat (Fin 0)"] \<open>finite_double (last_fcoord p)\<close> step
      show ?thesis by (simp add: fl_funcs_rmse)
    qed
  qed
qed

text \<open>
  C9, as amended. Comparing a non-empty cloud with itself under \<^verbatim>\<open>"rmse"\<close> gives
  exactly 0 when every \<open>z\<close> coordinate is finite, and NaN otherwise.
\<close>

theorem loss_metric_self_rmse_zero:
  assumes "pcd \<noteq> []"
  shows "loss_metric_fl pcd pcd ''rmse'' =
           Inr (if \<forall>p\<in>set pcd. finite_double (last_fcoord p) then 0 else NaN)"
proof -
  have n: "length pcd \<noteq> 0" using assms by simp
  have z: "zip pcd pcd = map (\<lambda>p. (p, p)) pcd" by (rule zip_same_conv_map)
  have l: "fl_loss_loop ''rmse'' (zip pcd pcd) (PyInt 0) =
             Inr (NpFloat (if \<forall>p\<in>set pcd. finite_double (last_fcoord p) then Fin 0 else NaN))"
    unfolding z by (rule fl_loss_loop_self) (use assms in simp_all)
  show ?thesis
    using n
    by (simp add: loss_metric_fl_def l fl_funcs_rmse fl_rmse_agg_def true_div_def
        round_double_zero zero_pyfloat_def)
qed

theorem loss_metric_self_rmse_zero_witness:
  "[(Fin 1, Fin 2, Fin 3), (Fin 4, Fin 5, Fin 6)] \<noteq> [] \<and>
   loss_metric_fl [(Fin 1, Fin 2, Fin 3), (Fin 4, Fin 5, Fin 6)]
     [(Fin 1, Fin 2, Fin 3), (Fin 4, Fin 5, Fin 6)] ''rmse'' = Inr 0"
  using loss_metric_self_rmse_zero [of "[(Fin 1, Fin 2, Fin 3), (Fin 4, Fin 5, Fin 6)]"]
  by (simp add: finite_double_def last_fcoord_def)

text \<open>
  C9 as stated fails on the empty cloud, where the division by the length raises, and on
  a cloud with an infinite \<open>z\<close>, where \<open>\<infinity> - \<infinity>\<close> is NaN.
\<close>

theorem loss_metric_self_empty_raises:
  "loss_metric_fl [] [] ''rmse'' = Inl ZeroDivisionError \<and>
   loss_metric_fl [(Fin 0, Fin 0, PosInf)] [(Fin 0, Fin 0, PosInf)] ''rmse'' = Inr NaN"
  by (simp add: loss_metric_fl_def fl_funcs_def fl_rmse_agg_def true_div_def py_add_def
      fl_sq_err_def fl_sub_def last_fcoord_def round_double_zero)

section \<open>Supports and positions\<close>

lemma set_np_where: "set (np_where a) = supp a"
  by (auto simp: np_where_def supp_def)

lemma distinct_concat_map:
  "distinct xs \<Longrightarrow> (\<And>x. x \<in> set xs \<Longrightarrow> distinct (f x)) \<Longrightarrow>
   (\<And>x y. x \<in> set xs \<Longrightarrow> y \<in> set xs \<Longrightarrow> x \<noteq> y \<Longrightarrow> set (f x) \<inter> set (f y) = {}) \<Longrightarrow>
   distinct (concat (map f xs))"
  by (induction xs) auto

lemma distinct_np_where: "distinct (np_where a)"
  unfolding np_where_def
  by (rule distinct_concat_map) (auto simp: distinct_map inj_on_def)

lemma length_np_where: "length (np_where a) = card (supp a)"
  using distinct_card[OF distinct_np_where, of a] by (simp add: set_np_where)

section \<open>Properties of \<^verbatim>\<open>crop_depth_map\<close>\<close>

lemma fl_less_nonpositive:
  "\<not> fl_less 0 x \<Longrightarrow> x \<noteq> NaN \<Longrightarrow> fl_less 0 t \<Longrightarrow> fl_less x t"
  by (cases x; cases t) (auto simp: zero_pyfloat_def)

text \<open>
  C6, as amended. For an array of doubles with at least one entry and a cutoff \<open>t\<close> (the
  number given, or what the callable returns on the positive inverse depths), the result
  is an array of doubles of the shape of the input; a positive entry \<open>x\<close> becomes the
  double \<open>1 / x\<close> when that is below \<open>t\<close> and 0 otherwise; any other entry \<open>x\<close> is kept
  when \<open>x < t\<close> and becomes 0 otherwise, so a non-positive entry is unchanged whenever
  \<open>0 < t\<close>; the integer returned is the number of non-zero entries of the output.
\<close>

theorem crop_depth_map_entries:
  assumes "concat d \<noteq> []"
    and "cutoff (Float64 (map (map inv_depth) d)) threshold = Inr t"
  shows "\<exists>ans n. crop_depth_map (Float64 d) threshold = Inr (Float64 ans, n) \<and>
           length ans = length d \<and>
           (\<forall>i<length d. length (ans ! i) = length (d ! i) \<and>
              (\<forall>j<length (d ! i).
                 (fl_less 0 (d ! i ! j) \<longrightarrow>
                    ans ! i ! j = (if fl_less (fl_div (Fin 1) (d ! i ! j)) t
                                   then fl_div (Fin 1) (d ! i ! j) else 0)) \<and>
                 (\<not> fl_less 0 (d ! i ! j) \<longrightarrow>
                    ans ! i ! j = (if fl_less (d ! i ! j) t then d ! i ! j else 0)) \<and>
                 (\<not> fl_less 0 (d ! i ! j) \<longrightarrow> d ! i ! j \<noteq> NaN \<longrightarrow> fl_less 0 t \<longrightarrow>
                    ans ! i ! j = d ! i ! j))) \<and>
           n = card (supp ans)"
proof -
  define ans where "ans = map (map (\<lambda>v. if fl_less v t then v else 0)) (map (map inv_depth) d)"
  have res: "crop_depth_map (Float64 d) threshold = Inr (Float64 ans, length (np_where ans))"
    using assms
    by (simp add: crop_depth_map_def vect_func_def where_less_def count_nonzero_def ans_def Let_def)
  have cells: "ans ! i ! j = (if fl_less (inv_depth (d ! i ! j)) t then inv_depth (d ! i ! j) else 0)"
    if "i < length d" "j < length (d ! i)" for i j
    using that by (simp add: ans_def)
  show ?thesis
    apply (rule exI[of _ ans], rule exI[of _ "length (np_where ans)"])
    apply (intro conjI allI impI)
          apply (rule res)
         apply (simp add: ans_def)
        apply (simp add: ans_def)
       apply (simp add: cells inv_depth_def)
      apply (simp add: cells inv_depth_def)
     apply (simp add: cells inv_depth_def fl_less_nonpositive)
    apply (rule length_np_where)
    done
qed

theorem crop_depth_map_entries_witness:
  "concat [[Fin 2, Fin 0], [Fin (- 1), Fin 4]] \<noteq> [] \<and>
   cutoff (Float64 (map (map inv_depth) [[Fin 2, Fin 0], [Fin (- 1), Fin 4]])) (Number (Fin (3 / 8))) =
     Inr (Fin (3 / 8)) \<and>
   crop_depth_map (Float64 [[Fin 2, Fin 0], [Fin (- 1), Fin 4]]) (Number (Fin (3 / 8))) =
     Inr (Float64 [[Fin 0, Fin 0], [Fin (- 1), Fin (1 / 4)]], 2) \<and>
   card (supp [[Fin 0, Fin 0], [Fin (- 1), Fin (1 / 4)]]) = 2"
proof -
  have h1: "concat [[Fin 2, Fin 0], [Fin (- 1), Fin 4]] \<noteq> []" by simp
  have h2: "cutoff (Float64 (map (map inv_depth) [[Fin 2, Fin 0], [Fin (- 1), Fin 4]]))
              (Number (Fin (3 / 8))) = Inr (Fin (3 / 8))"
    by (simp add: cutoff_def)
  from crop_depth_map_entries [OF h1 h2] obtain ans n where
    r: "crop_depth_map (Float64 [[Fin 2, Fin 0], [Fin (- 1), Fin 4]]) (Number (Fin (3 / 8))) =
          Inr (Float64 ans, n)"
    and n: "n = card (supp ans)"
    by blast
  have e: "crop_depth_map (Float64 [[Fin 2, Fin 0], [Fin (- 1), Fin 4]]) (Number (Fin (3 / 8))) =
             Inr (Float64 [[Fin 0, Fin 0], [Fin (- 1), Fin (1 / 4)]], 2)"
    by (simp add: crop_depth_map_def vect_func_def cutoff_def where_less_def count_nonzero_def
        inv_depth_def np_where_def zero_pyfloat_def round_double_values)
  from r e n have "card (supp [[Fin 0, Fin 0], [Fin (- 1), Fin (1 / 4)]]) = 2" by simp
  with h1 h2 e show ?thesis by simp
qed

text \<open>
  C6 as stated fails three times: an array of size 0 raises; a negative entry that is not
  below the cutoff is replaced by 0 instead of passing through; and in an array of
  integers whose first entry is not positive the inverse depths are truncated to integers,
  so the positive entry 2 becomes 0 although \<open>1 / 2\<close> is below the cutoff 1.
\<close>

theorem crop_depth_map_negative_entry_zeroed:
  "crop_depth_map (Float64 []) (Number (Fin 1)) = Inl ValueError \<and>
   crop_depth_map (Float64 [[Fin (- 1)]]) (Number (Fin (- 2))) = Inr (Float64 [[Fin 0]], 0) \<and>
   crop_depth_map (Int64 [[0, 2]]) (Number (Fin 1)) = Inr (Int64 [[0, 0]], 0)"
  by (simp add: crop_depth_map_def vect_func_def cutoff_def where_less_def count_nonzero_def
      inv_depth_def np_where_def zero_pyfloat_def)

section \<open>Broadcasting on equal shapes\<close>

lemma rect_nth: "rect a \<Longrightarrow> i < length a \<Longrightarrow> length (a ! i) = snd (shape a)"
  by (simp add: rect_def list_all_length)

lemma bidx_less: "i < n \<Longrightarrow> bidx n i = i"
  by (simp add: bidx_def)

lemma broadcast_same_shape:
  assumes "shape a = shape b"
  shows "broadcast f a b =
           Inr (map (\<lambda>i. map (\<lambda>j. f (a ! i ! j) (b ! i ! j)) [0..<snd (shape a)])
                    [0..<fst (shape a)])"
proof -
  have "map (\<lambda>i. map (\<lambda>j. f (a ! bidx (fst (shape a)) i ! bidx (snd (shape a)) j)
                             (b ! bidx (fst (shape a)) i ! bidx (snd (shape a)) j))
                      [0..<snd (shape a)]) [0..<fst (shape a)] =
        map (\<lambda>i. map (\<lambda>j. f (a ! i ! j) (b ! i ! j)) [0..<snd (shape a)]) [0..<fst (shape a)]"
    by (intro map_cong refl) (simp add: bidx_less)
  then show ?thesis
    using assms by (simp add: broadcast_def bdim_def)
qed

lemma broadcast_same_shape_props:
  assumes "shape a = shape b" and "broadcast f a b = Inr c"
  shows "shape c = shape a" and "rect c"
    and "i < fst (shape a) \<Longrightarrow> j < snd (shape a) \<Longrightarrow> c ! i ! j = f (a ! i ! j) (b ! i ! j)"
proof -
  have c: "c = map (\<lambda>i. map (\<lambda>j. f (a ! i ! j) (b ! i ! j)) [0..<snd (shape a)]) [0..<fst (shape a)]"
    using assms broadcast_same_shape[OF assms(1), of f] by simp
  have len: "length c = fst (shape a)" by (simp add: c)
  have "length (hd c) = snd (shape a)" if "c \<noteq> []"
  proof -
    from that have "0 < length c" by simp
    with len have "0 < fst (shape a)" by simp
    then have "c ! 0 = map (\<lambda>j. f (a ! 0 ! j) (b ! 0 ! j)) [0..<snd (shape a)]"
      unfolding c by (subst nth_map) simp_all
    then show ?thesis using that by (simp add: hd_conv_nth)
  qed
  with len show "shape c = shape a"
    by (cases "c = []") (auto simp: shape_def)
  then show "rect c"
    by (simp add: rect_def list_all_iff) (auto simp: c)
  show "i < fst (shape a) \<Longrightarrow> j < snd (shape a) \<Longrightarrow> c ! i ! j = f (a ! i ! j) (b ! i ! j)"
    by (simp add: c)
qed

section \<open>Properties of \<^verbatim>\<open>close_map\<close>\<close>

lemma shape_replicate: "shape (replicate (fst (shape a)) (replicate (snd (shape a)) v)) = shape a"
  by (cases a) (simp_all add: shape_def)

lemma closings_all_succeed:
  "\<forall>k\<in>set ks. \<exists>c. m src k = Inr c \<Longrightarrow> closings m src ks = Inr (map (\<lambda>k. projr (m src k)) ks)"
  by (induction ks) auto

lemma reduce_and_pixels:
  "\<forall>c\<in>set cs. shape c = shape acc \<Longrightarrow>
   \<exists>res. reduce_and acc cs = Inr res \<and> shape res = shape acc \<and>
     (\<forall>i < fst (shape acc). \<forall>j < snd (shape acc).
        res ! i ! j = (acc ! i ! j \<and> (\<forall>c\<in>set cs. c ! i ! j \<noteq> 0)))"
proof (induction cs arbitrary: acc)
  case Nil
  then show ?case by simp
next
  case (Cons c cs)
  from Cons.prems have sh: "shape acc = shape c" by simp
  obtain acc' where b: "broadcast (\<lambda>p q. p \<and> q \<noteq> 0) acc c = Inr acc'"
    using broadcast_same_shape[OF sh] by blast
  note p = broadcast_same_shape_props[OF sh b]
  from Cons.prems p(1) have "\<forall>d\<in>set cs. shape d = shape acc'" by simp
  from Cons.IH[OF this] obtain res where
    r: "reduce_and acc' cs = Inr res" "shape res = shape acc'"
    "\<forall>i < fst (shape acc'). \<forall>j < snd (shape acc').
        res ! i ! j = (acc' ! i ! j \<and> (\<forall>c\<in>set cs. c ! i ! j \<noteq> 0))"
    by blast
  have "reduce_and acc (c # cs) = Inr res" using b r(1) by simp
  moreover have "shape res = shape acc" using r(2) p(1) by simp
  moreover have "res ! i ! j = (acc ! i ! j \<and> (\<forall>c\<in>set (c # cs). c ! i ! j \<noteq> 0))"
    if "i < fst (shape acc)" "j < snd (shape acc)" for i j
    using that r(3) p(1) p(3)[of i j] by auto
  ultimately show ?case by blast
qed

text \<open>
  C7. When the closing succeeds under every kernel and keeps the shape of the mask, as
  \<^verbatim>\<open>cv2.morphologyEx\<close> does, \<^verbatim>\<open>close_map\<close> returns an array of the shape of the mask in
  which a pixel is set if and only if the closing under every kernel is non-zero there.
\<close>

theorem close_map_is_intersection:
  assumes "ks = (case kernels of None \<Rightarrow> default_kernels | Some ks \<Rightarrow> ks)"
    and "\<forall>k\<in>set ks. \<exists>c. morphologyEx (np_uint8 map_arr) k = Inr c \<and> shape c = shape map_arr"
  shows "\<exists>res. close_map morphologyEx map_arr kernels = Inr res \<and> shape res = shape map_arr \<and>
           (\<forall>i < fst (shape map_arr). \<forall>j < snd (shape map_arr).
              res ! i ! j \<longleftrightarrow>
                (\<forall>k\<in>set ks. \<forall>c. morphologyEx (np_uint8 map_arr) k = Inr c \<longrightarrow> c ! i ! j \<noteq> 0))"
proof -
  define src where "src = np_uint8 map_arr"
  define acc where "acc = replicate (fst (shape map_arr)) (replicate (snd (shape map_arr)) True)"
  define cs where "cs = map (\<lambda>k. projr (morphologyEx src k)) ks"
  have sa: "shape acc = shape map_arr" by (simp add: acc_def shape_replicate)
  have cl: "closings morphologyEx src ks = Inr cs"
    unfolding cs_def using assms(2) by (intro closings_all_succeed) (auto simp: src_def)
  have "\<forall>c\<in>set cs. shape c = shape acc"
    using assms(2) sa by (auto simp: cs_def src_def)
  from reduce_and_pixels[OF this] obtain res where
    r: "reduce_and acc cs = Inr res" "shape res = shape acc"
    "\<forall>i < fst (shape acc). \<forall>j < snd (shape acc).
        res ! i ! j = (acc ! i ! j \<and> (\<forall>c\<in>set cs. c ! i ! j \<noteq> 0))"
    by blast
  have cm: "close_map morphologyEx map_arr kernels = Inr res"
    using cl r(1) assms(1) by (simp add: close_map_def src_def acc_def)
  have px: "res ! i ! j \<longleftrightarrow>
              (\<forall>k\<in>set ks. \<forall>c. morphologyEx (np_uint8 map_arr) k = Inr c \<longrightarrow> c ! i ! j \<noteq> 0)"
    if ij: "i < fst (shape map_arr)" "j < snd (shape map_arr)" for i j
  proof -
    have "acc ! i ! j" using ij by (simp add: acc_def)
    with r(3) ij sa have "res ! i ! j \<longleftrightarrow> (\<forall>c\<in>set cs. c ! i ! j \<noteq> 0)" by simp
    also have "\<dots> \<longleftrightarrow> (\<forall>k\<in>set ks. \<forall>c. morphologyEx (np_uint8 map_arr) k = Inr c \<longrightarrow> c ! i ! j \<noteq> 0)"
      using assms(2) by (fastforce simp: cs_def src_def)
    finally show ?thesis .
  qed
  from cm r(2) sa px show ?thesis by auto
qed

theorem close_map_is_intersection_witness:
  "[[[1]], [[1, 1]]] = (case Some [[[1]], [[1, 1]]] of None \<Rightarrow> default_kernels | Some ks \<Rightarrow> ks) \<and>
   close_map (\<lambda>src k. if k = [[1]] then Inr src else Inr (map (map (\<lambda>_. 1)) src)) [[1, 0]]
     (Some [[[1]], [[1, 1]]]) = Inr [[True, False]] \<and>
   shape [[True, False]] = shape [[1, 0 :: int]]"
proof -
  let ?m = "\<lambda>(src :: 8 word list list) (k :: 8 word list list).
              if k = [[1]] then (Inr src :: py_error + 8 word list list) else Inr (map (map (\<lambda>_. 1)) src)"
  have h1: "[[[1]], [[1, 1]]] = (case Some [[[1]], [[1, 1]]] of None \<Rightarrow> default_kernels | Some ks \<Rightarrow> ks)"
    by simp
  have h2: "\<forall>k\<in>set [[[1]], [[1, 1]]]. \<exists>c. ?m (np_uint8 [[1, 0]]) k = Inr c \<and> shape c = shape [[1, 0 :: int]]"
    by (simp add: np_uint8_def shape_def)
  from close_map_is_intersection [of "[[[1]], [[1, 1]]]" "Some [[[1]], [[1, 1]]]" ?m "[[1, 0]]", OF h1 h2]
  obtain res where r: "close_map ?m [[1, 0]] (Some [[[1]], [[1, 1]]]) = Inr res"
    and s: "shape res = shape [[1, 0 :: int]]" by blast
  have e: "close_map ?m [[1, 0]] (Some [[[1]], [[1, 1]]]) = Inr [[True, False]]"
    by (simp add: close_map_def np_uint8_def shape_def broadcast_def bdim_def bidx_def)
  from r e s have "shape [[True, False]] = shape [[1, 0 :: int]]" by simp
  with h1 e show ?thesis by simp
qed

section \<open>Properties of \<^verbatim>\<open>get_connected_components\<close>\<close>

lemma supp_label_mask:
  "supp (label_mask result l) = {(i, j). i < length result \<and> j < length (result ! i) \<and> result ! i ! j = l}"
  by (auto simp: supp_def label_mask_def split: if_splits)

lemma shape_label_mask: "shape (label_mask result l) = shape result"
  by (cases result) (simp_all add: shape_def label_mask_def)

lemma shape_eq_of_lengths: "map length a = map length b \<Longrightarrow> shape a = shape b"
proof -
  assume m: "map length a = map length b"
  then have "length a = length b" by (rule map_eq_imp_length_eq)
  moreover have "length (hd a) = length (hd b)" if "a \<noteq> []"
  proof -
    from that \<open>length a = length b\<close> have "b \<noteq> []" by auto
    with that m show ?thesis by (cases a; cases b) auto
  qed
  ultimately show ?thesis by (cases "a = []") (auto simp: shape_def)
qed

lemma components_loop_masks:
  "shape depth_map = shape result \<Longrightarrow>
   \<exists>out. components_loop depth_map result threshold cnt ls ans = Inr out \<and>
     map snd out = map snd ans @
       map (label_mask result)
         (filter (\<lambda>l. real_of_int (sum_list (concat (label_mask result l))) \<ge> threshold * real cnt) ls)"
proof (induction ls arbitrary: ans)
  case Nil
  then show ?case by simp
next
  case (Cons l ls)
  from Cons.prems have sh: "shape depth_map = shape (label_mask result l)"
    by (simp add: shape_label_mask)
  obtain masked where b: "broadcast (\<lambda>x m. x * real_of_int m) depth_map (label_mask result l) = Inr masked"
    using broadcast_same_shape[OF sh] by blast
  note rest = Cons.prems
  show ?case
  proof (cases "real_of_int (sum_list (concat (label_mask result l))) \<ge> threshold * real cnt")
    case True
    from Cons.IH[OF rest, of "ans @ [(masked, label_mask result l)]"] True b
    show ?thesis by (simp add: Let_def)
  next
    case False
    from Cons.IH[OF rest, of ans] False
    show ?thesis by (simp add: Let_def)
  qed
qed

lemma distinct_nth_neq: "distinct xs \<Longrightarrow> a < length xs \<Longrightarrow> b < length xs \<Longrightarrow> a \<noteq> b \<Longrightarrow> xs ! a \<noteq> xs ! b"
  by (simp add: nth_eq_iff_index_eq)

text \<open>
  C5. The labelling is \<^verbatim>\<open>cv2.connectedComponents\<close>: it succeeds, its label array has the
  shape of the image, and it labels every background pixel 0. Then
  \<^verbatim>\<open>get_connected_components\<close> returns, the masks it returns are pairwise disjoint, and
  each of them lies within the pixels where the depth map is positive.
\<close>

theorem get_connected_components_disjoint_foreground:
  assumes "connectedComponents (binarize depth_map) = Inr (num, result)"
    and "map length result = map length depth_map"
    and "\<forall>i<length depth_map. \<forall>j<length (depth_map ! i).
           binarize depth_map ! i ! j = 0 \<longrightarrow> result ! i ! j = 0"
  shows "\<exists>comps. get_connected_components connectedComponents depth_map threshold = Inr comps \<and>
           (\<forall>a<length comps. \<forall>b<length comps. a \<noteq> b \<longrightarrow>
              supp (snd (comps ! a)) \<inter> supp (snd (comps ! b)) = {}) \<and>
           (\<forall>a<length comps.
              supp (snd (comps ! a)) \<subseteq>
                {(i, j). i < length depth_map \<and> j < length (depth_map ! i) \<and> 0 < depth_map ! i ! j})"
proof -
  define cnt where "cnt = sum_list (map unat (concat (binarize depth_map)))"
  define keep where "keep = (\<lambda>l. real_of_int (sum_list (concat (label_mask result l))) \<ge> threshold * real cnt)"
  define ls where "ls = filter keep [1..num - 1]"
  have "shape depth_map = shape result"
    using shape_eq_of_lengths[OF assms(2)] by simp
  from components_loop_masks[OF this, of threshold cnt "[1..num - 1]" "[]"] obtain comps where
    c: "components_loop depth_map result threshold cnt [1..num - 1] [] = Inr comps"
    and m: "map snd comps = map (label_mask result) ls"
    by (auto simp: ls_def keep_def)
  have g: "get_connected_components connectedComponents depth_map threshold = Inr comps"
    using assms(1) c by (simp add: get_connected_components_def cnt_def Let_def)
  from m have len: "length comps = length ls"
    by (metis length_map)
  have nth: "snd (comps ! a) = label_mask result (ls ! a)" if "a < length comps" for a
  proof -
    have "snd (comps ! a) = map snd comps ! a" using that by simp
    also have "\<dots> = label_mask result (ls ! a)" using that len by (simp add: m)
    finally show ?thesis .
  qed
  have dl: "distinct ls" by (simp add: ls_def)
  have pos: "1 \<le> ls ! a" if "a < length comps" for a
  proof -
    from that len have "ls ! a \<in> set ls" by simp
    then show ?thesis by (simp add: ls_def)
  qed
  have disj: "supp (snd (comps ! a)) \<inter> supp (snd (comps ! b)) = {}"
    if "a < length comps" "b < length comps" "a \<noteq> b" for a b
  proof -
    from that len dl have "ls ! a \<noteq> ls ! b" by (simp add: distinct_nth_neq)
    then show ?thesis using that by (auto simp: nth supp_label_mask)
  qed
  have sub: "supp (snd (comps ! a)) \<subseteq>
      {(i, j). i < length depth_map \<and> j < length (depth_map ! i) \<and> 0 < depth_map ! i ! j}"
    if a: "a < length comps" for a
  proof
    fix p assume p: "p \<in> supp (snd (comps ! a))"
    obtain i j where ij: "p = (i, j)" by (cases p)
    from p ij a have r: "i < length result" "j < length (result ! i)" "result ! i ! j = ls ! a"
      by (auto simp: nth supp_label_mask)
    from assms(2) have ll: "length result = length depth_map"
      by (rule map_eq_imp_length_eq)
    from r(1) ll have i: "i < length depth_map" by simp
    from assms(2) r(1) i have "length (result ! i) = length (depth_map ! i)"
      by (metis nth_map)
    with r(2) have j: "j < length (depth_map ! i)" by simp
    from r(3) pos[OF a] have "result ! i ! j \<noteq> 0" by simp
    with assms(3) i j have "binarize depth_map ! i ! j \<noteq> 0" by blast
    with i j have "0 < depth_map ! i ! j"
      by (simp add: binarize_def split: if_splits)
    with i j ij show "p \<in> {(i, j). i < length depth_map \<and> j < length (depth_map ! i) \<and> 0 < depth_map ! i ! j}"
      by simp
  qed
  from g disj sub show ?thesis by blast
qed

theorem get_connected_components_disjoint_foreground_witness:
  "(\<lambda>arr. Inr (3, [[1, 0, 2]])) (binarize [[2, 0, 3]]) = (Inr (3, [[1, 0, 2]]) :: py_error + int \<times> int list list) \<and>
   map length [[1, 0, 2 :: int]] = map length [[2, 0, 3 :: real]] \<and>
   get_connected_components (\<lambda>arr. Inr (3, [[1, 0, 2]])) [[2, 0, 3]] (3 / 10) =
     Inr [([[2, 0, 0]], [[1, 0, 0]]), ([[0, 0, 3]], [[0, 0, 1]])] \<and>
   supp [[1, 0, 0 :: int]] \<inter> supp [[0, 0, 1 :: int]] = {}"
proof -
  let ?cc = "\<lambda>arr :: 8 word list list. (Inr (3, [[1, 0, 2]]) :: py_error + int \<times> int list list)"
  have h1: "?cc (binarize [[2, 0, 3]]) = Inr (3, [[1, 0, 2]])" by simp
  have h2: "map length [[1, 0, 2 :: int]] = map length [[2, 0, 3 :: real]]" by simp
  have h3: "\<forall>i<length [[2, 0, 3 :: real]]. \<forall>j<length ([[2, 0, 3 :: real]] ! i).
      binarize [[2, 0, 3]] ! i ! j = 0 \<longrightarrow> [[1, 0, 2 :: int]] ! i ! j = 0"
    by (simp add: binarize_def less_Suc_eq numeral_3_eq_3)
  from get_connected_components_disjoint_foreground [of ?cc "[[2, 0, 3]]" 3 "[[1, 0, 2]]" "3 / 10", OF h1 h2 h3]
  obtain comps where
    g: "get_connected_components ?cc [[2, 0, 3]] (3 / 10) = Inr comps"
    and d: "\<forall>a<length comps. \<forall>b<length comps. a \<noteq> b \<longrightarrow>
              supp (snd (comps ! a)) \<inter> supp (snd (comps ! b)) = {}"
    by blast
  have e: "get_connected_components ?cc [[2, 0, 3]] (3 / 10) =
     Inr [([[2, 0, 0]], [[1, 0, 0]]), ([[0, 0, 3]], [[0, 0, 1]])]"
    by (simp add: get_connected_components_def binarize_def label_mask_def
        broadcast_def bdim_def bidx_def shape_def Let_def upto.simps)
  from g e have c: "comps = [([[2, 0, 0]], [[1, 0, 0]]), ([[0, 0, 3]], [[0, 0, 1]])]" by simp
  from d [rule_format, of 0 1] c
  have "supp [[1, 0, 0 :: int]] \<inter> supp [[0, 0, 1 :: int]] = {}" by simp
  with h2 e show ?thesis by simp
qed

section \<open>The loop body of \<^verbatim>\<open>extract_planes_con\<close>\<close>

lemma np_take_map:
  "np_take (map f xs) is = (case np_take xs is of Inl e \<Rightarrow> Inl e | Inr w \<Rightarrow> Inr (map f w))"
  by (induction "is") (auto simp: np_index_def Let_def split: sum.splits)

lemma np_take_subset: "np_take xs is = Inr w \<Longrightarrow> set w \<subseteq> set xs"
proof (induction "is" arbitrary: w)
  case Nil
  then show ?case by simp
next
  case (Cons i "is")
  then show ?case
    by (auto simp: np_index_def Let_def split: sum.splits if_splits)
qed

lemma np_take_length: "np_take xs is = Inr w \<Longrightarrow> length w = length is"
  by (induction "is" arbitrary: w) (auto split: sum.splits)

lemma np_take_pairs:
  assumes "np_take (map fst ls) is = Inr x" and "np_take (map snd ls) is = Inr y"
  shows "set (zip x y) \<subseteq> set ls"
proof -
  from assms obtain w where w: "np_take ls is = Inr w" "x = map fst w" "y = map snd w"
    by (auto simp: np_take_map split: sum.splits)
  have "zip x y = w" unfolding w(2,3) by (simp add: zip_map_fst_snd)
  with np_take_subset[OF w(1)] show ?thesis by simp
qed

lemma length_put: "length (put a p v) = length a"
  by (simp add: put_def)

lemma length_put_row: "i < length a \<Longrightarrow> length (put a p v ! i) = length (a ! i)"
  by (cases "i = fst p") (simp_all add: put_def)

lemma put_nth:
  "i < length a \<Longrightarrow> j < length (a ! i) \<Longrightarrow>
   put a p v ! i ! j = (if (i, j) = p then v else a ! i ! j)"
  by (cases p; cases "i = fst p") (auto simp: put_def nth_list_update)

lemma supp_put_zero: "supp (put a p 0) = supp a - {p}"
  by (auto simp: supp_def length_put length_put_row put_nth split: if_splits)

lemma supp_put: "supp (put a p v) \<subseteq> supp a \<union> {p}"
  by (auto simp: supp_def length_put length_put_row put_nth split: if_splits)

lemma fold_put_zero: "supp (fold (\<lambda>p b. put b p 0) ps a) = supp a - set ps"
  by (induction ps arbitrary: a) (auto simp: supp_put_zero)

lemma fold_put: "supp (fold (\<lambda>p b. put b p v) ps a) \<subseteq> supp a \<union> set ps"
proof (induction ps arbitrary: a)
  case Nil
  then show ?case by simp
next
  case (Cons p ps)
  from Cons.IH[of "put a p v"] supp_put[of a p v] show ?case by auto
qed

lemma supp_np_assign_zero: "supp (np_assign a x y 0) = supp a - set (zip x y)"
  by (simp add: np_assign_def fold_put_zero)

lemma supp_np_assign: "supp (np_assign a x y v) \<subseteq> supp a \<union> set (zip x y)"
  by (simp add: np_assign_def fold_put)

lemma supp_np_zeros: "supp (np_zeros s) = {}"
  by (auto simp: supp_def np_zeros_def)

text \<open>What a run of the loop body that appends a pair does to the store.\<close>

lemma plane_step_appends:
  assumes "plane_step cr sg k h d c = (h', Inr (entry, n))" and "c < length h"
  shows "fst entry = length h" and "length h' = Suc (length h)"
    and "\<And>b. b < length h \<Longrightarrow> b \<noteq> c \<Longrightarrow> h' ! b = h ! b"
    and "supp (h' ! c) \<subseteq> supp (h ! c)"
    and "supp (h' ! length h) \<subseteq> supp (h ! c)"
    and "supp (h' ! length h) \<inter> supp (h' ! c) = {}"
proof -
  from assms(1) obtain masked pm inl x y where
    f: "get_plane_from_pcd cr sg k masked = Inr (pm, inl)"
    and x: "np_take (map fst (np_where (h ! c))) inl = Inr x"
    and y: "np_take (map snd (np_where (h ! c))) inl = Inr y"
    and h': "h' = ((h @ [np_zeros (shape (h ! c))])[c := np_assign (h ! c) x y 0])
                    [length h := np_assign (np_zeros (shape (h ! c))) x y 1]"
    and e: "entry = (length h, pm)"
    using assms(2)
    by (auto simp: plane_step_def Let_def nth_append split: sum.splits prod.splits)
  have P: "set (zip x y) \<subseteq> supp (h ! c)"
    using np_take_pairs[OF x y] by (simp add: set_np_where)
  from assms(2) have c: "h' ! c = np_assign (h ! c) x y 0"
    by (simp add: h' nth_list_update nth_append)
  have a: "h' ! length h = np_assign (np_zeros (shape (h ! c))) x y 1"
    by (simp add: h')
  show "fst entry = length h" by (simp add: e)
  show "length h' = Suc (length h)" by (simp add: h')
  show "\<And>b. b < length h \<Longrightarrow> b \<noteq> c \<Longrightarrow> h' ! b = h ! b"
    by (simp add: h' nth_list_update nth_append)
  show "supp (h' ! c) \<subseteq> supp (h ! c)"
    by (auto simp: c supp_np_assign_zero)
  have sa: "supp (h' ! length h) \<subseteq> set (zip x y)"
    using supp_np_assign[of "np_zeros (shape (h ! c))" x y 1] by (simp add: a supp_np_zeros)
  with P show "supp (h' ! length h) \<subseteq> supp (h ! c)" by blast
  from sa show "supp (h' ! length h) \<inter> supp (h' ! c) = {}"
    by (auto simp: c supp_np_assign_zero)
qed

text \<open>Every run of the loop body leaves the arrays below the working copy alone.\<close>

lemma plane_step_frame:
  assumes "plane_step cr sg k h d c = (h', r)" and "n \<le> c" and "n \<le> length h"
  shows "take n h' = take n h" and "length h \<le> length h'"
  using assms
  by (auto simp: plane_step_def Let_def split: sum.splits prod.splits)

section \<open>Properties of \<^verbatim>\<open>extract_planes_con\<close>\<close>

lemma extract_loop_frame:
  "n \<le> c \<Longrightarrow> n \<le> length h \<Longrightarrow>
   take n (fst (extract_loop cr sg fuel k h d c ss t count result)) = take n h"
proof (induction fuel arbitrary: k h count result)
  case 0
  then show ?case by simp
next
  case (Suc fuel)
  show ?case
  proof (cases "loop_continues ss t count")
    case (Inl e)
    then show ?thesis by simp
  next
    case (Inr go)
    show ?thesis
    proof (cases go)
      case False
      with Inr show ?thesis by simp
    next
      case True
      obtain h' r where ps: "plane_step cr sg k h d c = (h', r)" by (cases "plane_step cr sg k h d c")
      note fr = plane_step_frame[OF ps Suc.prems]
      show ?thesis
      proof (cases r)
        case (Inl e)
        with Inr True ps fr show ?thesis by simp
      next
        case (Inr en)
        obtain entry m where en: "en = (entry, m)" by (cases en)
        from Suc.prems(2) fr(2) have "n \<le> length h'" by simp
        from Suc.IH[OF Suc.prems(1) this] fr(1) \<open>loop_continues ss t count = Inr go\<close> True ps Inr en
        show ?thesis by simp
      qed
    qed
  qed
qed

text \<open>
  C3. Whatever the call does (return, raise, or still run when the fuel is spent), every
  array of the caller's store, the mask \<^verbatim>\<open>map_arr\<close> and the depth map among them, is
  what it was before the call: the writes go to the copy and to the new masks.
\<close>

theorem extract_planes_con_keeps_caller_arrays:
  assumes "a < length h"
  shows "fst (extract_planes_con cr sg fuel h map_arr depth_map start_size t) ! a = h ! a"
proof -
  let ?h' = "fst (extract_planes_con cr sg fuel h map_arr depth_map start_size t)"
  have "take (length h) ?h' = take (length h) (h @ [h ! map_arr])"
    unfolding extract_planes_con_def Let_def by (rule extract_loop_frame) simp_all
  then have "take (length h) ?h' = h" by simp
  then have "take (length h) ?h' ! a = h ! a" by simp
  with assms show ?thesis by simp
qed

lemma planes_inv_step:
  assumes "planes_inv U h c result" and "plane_step cr sg k h d c = (h', Inr (entry, n))"
  shows "planes_inv U h' c (result @ [entry])"
proof -
  from assms(1) have c: "c < length h" by (simp add: planes_inv_def)
  note ps = plane_step_appends[OF assms(2) c]
  from assms(1) have U: "supp (h ! c) \<subseteq> U"
    and old: "\<And>e. e \<in> set result \<Longrightarrow> fst e < length h \<and> fst e \<noteq> c \<and> supp (h ! fst e) \<subseteq> U \<and>
        supp (h ! fst e) \<inter> supp (h ! c) = {}"
    and pw: "\<And>i j. i < length result \<Longrightarrow> j < length result \<Longrightarrow> i \<noteq> j \<Longrightarrow>
        supp (h ! fst (result ! i)) \<inter> supp (h ! fst (result ! j)) = {}"
    by (auto simp: planes_inv_def)
  have same: "h' ! fst e = h ! fst e" if "e \<in> set result" for e
    using old[OF that] ps(3) by simp
  have new: "supp (h' ! fst entry) \<subseteq> supp (h ! c)" "supp (h' ! fst entry) \<inter> supp (h' ! c) = {}"
    using ps(1,5,6) by simp_all
  have 1: "c < length h'" using c ps(2) by simp
  have 2: "supp (h' ! c) \<subseteq> U" using ps(4) U by blast
  have 3: "fst e < length h' \<and> fst e \<noteq> c \<and> supp (h' ! fst e) \<subseteq> U \<and>
        supp (h' ! fst e) \<inter> supp (h' ! c) = {}" if "e \<in> set (result @ [entry])" for e
  proof (cases "e \<in> set result")
    case True
    from old[OF True] same[OF True] ps(2,4) show ?thesis by auto
  next
    case False
    with that have "e = entry" by simp
    with new ps(1,2) c U show ?thesis by auto
  qed
  have dn: "supp (h' ! fst (result ! i)) \<inter> supp (h' ! fst entry) = {}" if "i < length result" for i
  proof -
    from that have m: "result ! i \<in> set result" by simp
    from old[OF m] same[OF m] new(1) show ?thesis by auto
  qed
  have 4: "supp (h' ! fst ((result @ [entry]) ! i)) \<inter> supp (h' ! fst ((result @ [entry]) ! j)) = {}"
    if lt: "i < length (result @ [entry])" "j < length (result @ [entry])" and ne: "i \<noteq> j" for i j
  proof -
    from lt ne consider "i < length result" "j < length result"
      | "i < length result" "j = length result"
      | "i = length result" "j < length result"
      by (auto simp: less_Suc_eq)
    then show ?thesis
    proof cases
      case 1
      with pw[OF 1 ne] same[of "result ! i"] same[of "result ! j"]
      show ?thesis by (simp add: nth_append)
    next
      case 2
      with dn[of i] show ?thesis by (simp add: nth_append)
    next
      case 3
      with dn[of j] show ?thesis by (auto simp: nth_append)
    qed
  qed
  from 1 2 3 4 show ?thesis unfolding planes_inv_def by blast
qed

lemma extract_loop_inv:
  "planes_inv U h c result \<Longrightarrow>
   extract_loop cr sg fuel k h d c ss t count result = (h', Returns res) \<Longrightarrow>
   planes_inv U h' c res"
proof (induction fuel arbitrary: k h count result)
  case 0
  then show ?case by simp
next
  case (Suc fuel)
  show ?case
  proof (cases "loop_continues ss t count")
    case (Inl e)
    with Suc.prems(2) show ?thesis by simp
  next
    case (Inr go)
    show ?thesis
    proof (cases go)
      case False
      with Inr Suc.prems show ?thesis by simp
    next
      case True
      obtain h1 r where ps: "plane_step cr sg k h d c = (h1, r)" by (cases "plane_step cr sg k h d c")
      show ?thesis
      proof (cases r)
        case (Inl e)
        with Inr True ps Suc.prems(2) show ?thesis by simp
      next
        case r: (Inr en)
        obtain entry m where en: "en = (entry, m)" by (cases en)
        from ps r en have st: "plane_step cr sg k h d c = (h1, Inr (entry, m))" by simp
        from Suc.prems(2) Inr True st
        have "extract_loop cr sg fuel (Suc k) h1 d c ss t (count - int m) (result @ [entry]) = (h', Returns res)"
          by simp
        from Suc.IH[OF planes_inv_step[OF Suc.prems(1) st] this] show ?thesis .
      qed
    qed
  qed
qed

text \<open>
  C10. When the call returns, each recorded mask lies within the support of the input
  mask, and the masks recorded at two different positions of the list are disjoint.
\<close>

theorem extract_planes_con_masks_disjoint:
  assumes "extract_planes_con cr sg fuel h map_arr depth_map start_size t = (h', Returns res)"
  shows "(\<forall>i<length res. supp (h' ! fst (res ! i)) \<subseteq> supp (h ! map_arr)) \<and>
         (\<forall>i<length res. \<forall>j<length res. i \<noteq> j \<longrightarrow>
            supp (h' ! fst (res ! i)) \<inter> supp (h' ! fst (res ! j)) = {})"
proof -
  have "planes_inv (supp (h ! map_arr)) (h @ [h ! map_arr]) (length h) []"
    by (simp add: planes_inv_def)
  from extract_loop_inv[OF this assms[unfolded extract_planes_con_def Let_def]]
  have "planes_inv (supp (h ! map_arr)) h' (length h) res" .
  then show ?thesis by (simp add: planes_inv_def)
qed

lemmas run_defs = extract_planes_con_def loop_continues_def loop_bound_def py_mul_def
    int_to_float_def round_double_zero round_double_values plane_step_def
    get_plane_from_pcd_def example_cloud_def example_first_inlier_def example_no_inlier_def
    transform_def coords_def
    broadcast_def bdim_def bidx_def shape_def np_where_def np_zeros_def np_index_def
    np_assign_def put_def Let_def

text \<open>
  A run that records two planes: the store holds the mask \<open>[[1, 1]]\<close> and the depth map
  \<open>[[2, 3]]\<close>, the start size is 2 and \<open>t\<close> is one half.
\<close>

lemma example_run:
  "extract_planes_con example_cloud example_first_inlier (Suc (Suc (Suc 0)))
     [[[1, 1]], [[2, 3]]] 0 1 2 (Fin (1 / 2)) =
   ([[[1, 1]], [[2, 3]], [[0, 0]], [[1, 0]], [[0, 1]]],
    Returns [(3, [0, 0, 1, 0]), (4, [0, 0, 1, 0])])"
  by (simp add: run_defs)

theorem extract_planes_con_keeps_caller_arrays_witness:
  "0 < length [[[1, 1]], [[2, 3 :: real]]] \<and>
   fst (extract_planes_con example_cloud example_first_inlier (Suc (Suc (Suc 0)))
          [[[1, 1]], [[2, 3]]] 0 1 2 (Fin (1 / 2))) ! 0 = [[1, 1]] \<and>
   fst (extract_planes_con example_cloud example_first_inlier (Suc (Suc (Suc 0)))
          [[[1, 1]], [[2, 3]]] 0 1 2 (Fin (1 / 2))) ! 2 = [[0, 0]]"
proof -
  have h: "0 < length [[[1, 1]], [[2, 3 :: real]]]" by simp
  have "fst (extract_planes_con example_cloud example_first_inlier (Suc (Suc (Suc 0)))
          [[[1, 1]], [[2, 3]]] 0 1 2 (Fin (1 / 2))) ! 0 = [[[1, 1]], [[2, 3]]] ! 0"
    by (rule extract_planes_con_keeps_caller_arrays [OF h])
  moreover have "fst (extract_planes_con example_cloud example_first_inlier (Suc (Suc (Suc 0)))
          [[[1, 1]], [[2, 3]]] 0 1 2 (Fin (1 / 2))) ! 2 = [[0, 0]]"
    using example_run by simp
  ultimately show ?thesis by simp
qed

theorem extract_planes_con_masks_disjoint_witness:
  "extract_planes_con example_cloud example_first_inlier (Suc (Suc (Suc 0)))
     [[[1, 1]], [[2, 3]]] 0 1 2 (Fin (1 / 2)) =
   ([[[1, 1]], [[2, 3]], [[0, 0]], [[1, 0]], [[0, 1]]],
    Returns [(3, [0, 0, 1, 0]), (4, [0, 0, 1, 0])]) \<and>
   supp [[1, 0 :: real]] \<subseteq> supp [[1, 1 :: real]] \<and>
   supp [[1, 0 :: real]] \<inter> supp [[0, 1 :: real]] = {}"
proof -
  note t = extract_planes_con_masks_disjoint [OF example_run]
  from t [THEN conjunct1, rule_format, of 0]
  have 1: "supp [[1, 0 :: real]] \<subseteq> supp [[1, 1 :: real]]" by simp
  from t [THEN conjunct2, rule_format, of 0 1]
  have 2: "supp [[1, 0 :: real]] \<inter> supp [[0, 1 :: real]] = {}" by simp
  from example_run 1 2 show ?thesis by simp
qed

lemma extract_loop_result_grows:
  "extract_loop cr sg fuel k h d c ss t count result = (h', Returns res) \<Longrightarrow>
   length result \<le> length res"
proof (induction fuel arbitrary: k h count result)
  case 0
  then show ?case by simp
next
  case (Suc fuel)
  show ?case
  proof (cases "loop_continues ss t count")
    case (Inl e)
    with Suc.prems show ?thesis by simp
  next
    case (Inr go)
    show ?thesis
    proof (cases go)
      case False
      with Inr Suc.prems show ?thesis by simp
    next
      case True
      obtain h1 r where ps: "plane_step cr sg k h d c = (h1, r)" by (cases "plane_step cr sg k h d c")
      show ?thesis
      proof (cases r)
        case (Inl e)
        with Inr True ps Suc.prems show ?thesis by simp
      next
        case r: (Inr en)
        obtain entry m where en: "en = (entry, m)" by (cases en)
        from Suc.prems Inr True ps r en
        have "extract_loop cr sg fuel (Suc k) h1 d c ss t (count - int m) (result @ [entry]) = (h', Returns res)"
          by simp
        from Suc.IH[OF this] show ?thesis by simp
      qed
    qed
  qed
qed

lemma loop_continues_zero: "loop_continues 0 t 0 = Inr True \<or> (\<exists>e. loop_continues 0 t 0 = Inl e)"
  by (cases t)
     (simp_all add: loop_continues_def loop_bound_def py_mul_def int_to_float_def round_double_zero)

lemma loop_continues_zero_finite: "loop_continues 0 (Fin r) 0 = Inr True"
  by (simp add: loop_continues_def loop_bound_def py_mul_def int_to_float_def round_double_zero)

lemma plane_step_fit_raises:
  assumes "broadcast (*) (h ! d) (h ! c) = Inr masked"
    and "get_plane_from_pcd cr sg k masked = Inl e"
  shows "plane_step cr sg k h d c = (h, Inl e)"
  using assms by (simp add: plane_step_def)

text \<open>
  C1, as amended. With \<open>start_size = 0\<close> and a finite \<open>t\<close> the loop condition
  \<open>0 >= int(0 * t)\<close> is true on entry and the loop body runs on the copy of the mask: the
  call is the first run of the body, followed by the rest of the loop. When the product
  \<^verbatim>\<open>depth_map * curr_map_arr\<close> broadcasts, the plane fit is called on it: if the fit
  raises, so does the call. For every \<open>t\<close> the call never returns the empty list.
\<close>

theorem extract_planes_con_zero_start_enters_loop:
  "loop_continues 0 (Fin r) 0 = Inr True \<and>
   extract_planes_con cr sg (Suc fuel) h map_arr depth_map 0 (Fin r) =
     (case plane_step cr sg 0 (h @ [h ! map_arr]) depth_map (length h) of
        (h', Inl e) \<Rightarrow> (h', Raises e)
      | (h', Inr (entry, n)) \<Rightarrow>
          extract_loop cr sg fuel (Suc 0) h' depth_map (length h) 0 (Fin r) (- int n) [entry]) \<and>
   (depth_map < length h \<longrightarrow> broadcast (*) (h ! depth_map) (h ! map_arr) = Inr masked \<longrightarrow>
      get_plane_from_pcd cr sg 0 masked = Inl e \<longrightarrow>
      extract_planes_con cr sg (Suc fuel) h map_arr depth_map 0 (Fin r) =
        (h @ [h ! map_arr], Raises e)) \<and>
   snd (extract_planes_con cr sg fuel h map_arr depth_map 0 t) \<noteq> Returns []"
proof (intro conjI impI)
  show "loop_continues 0 (Fin r) 0 = Inr True" by (rule loop_continues_zero_finite)
  show body: "extract_planes_con cr sg (Suc fuel) h map_arr depth_map 0 (Fin r) =
     (case plane_step cr sg 0 (h @ [h ! map_arr]) depth_map (length h) of
        (h', Inl e) \<Rightarrow> (h', Raises e)
      | (h', Inr (entry, n)) \<Rightarrow>
          extract_loop cr sg fuel (Suc 0) h' depth_map (length h) 0 (Fin r) (- int n) [entry])"
    by (simp add: extract_planes_con_def loop_continues_zero_finite Let_def
        split: prod.splits sum.splits)
  show "extract_planes_con cr sg (Suc fuel) h map_arr depth_map 0 (Fin r) =
        (h @ [h ! map_arr], Raises e)"
    if d: "depth_map < length h"
      and b: "broadcast (*) (h ! depth_map) (h ! map_arr) = Inr masked"
      and f: "get_plane_from_pcd cr sg 0 masked = Inl e"
  proof -
    from d b have "broadcast (*) ((h @ [h ! map_arr]) ! depth_map) ((h @ [h ! map_arr]) ! length h) =
        Inr masked" by (simp add: nth_append)
    from plane_step_fit_raises[OF this f] show ?thesis unfolding body by simp
  qed
  show "snd (extract_planes_con cr sg fuel h map_arr depth_map 0 t) \<noteq> Returns []"
  proof (cases fuel)
    case 0
    then show ?thesis by (simp add: extract_planes_con_def)
  next
    case (Suc n)
    let ?h0 = "h @ [h ! map_arr]"
    from loop_continues_zero[of t] show ?thesis
    proof
      assume go: "loop_continues 0 t 0 = Inr True"
      obtain h1 r where ps: "plane_step cr sg 0 ?h0 depth_map (length h) = (h1, r)"
        by (cases "plane_step cr sg 0 ?h0 depth_map (length h)")
      show ?thesis
      proof (cases r)
        case (Inl e)
        with go ps Suc show ?thesis by (simp add: extract_planes_con_def)
      next
        case r: (Inr en)
        obtain entry m where en: "en = (entry, m)" by (cases en)
        obtain h2 out where
          l: "extract_loop cr sg n (Suc 0) h1 depth_map (length h) 0 t (0 - int m) ([] @ [entry]) = (h2, out)"
          by (cases "extract_loop cr sg n (Suc 0) h1 depth_map (length h) 0 t (0 - int m) ([] @ [entry])")
        have "out \<noteq> Returns []"
        proof
          assume "out = Returns []"
          with extract_loop_result_grows[of cr sg n "Suc 0" h1 depth_map "length h" 0 t "0 - int m" "[] @ [entry]" h2 "[]"] l
          show False by simp
        qed
        with go ps r en l Suc show ?thesis by (simp add: extract_planes_con_def)
      qed
    next
      assume "\<exists>e. loop_continues 0 t 0 = Inl e"
      with Suc show ?thesis by (auto simp: extract_planes_con_def)
    qed
  qed
qed

theorem extract_planes_con_zero_start_enters_loop_witness:
  "(1 :: nat) < length [[[0, 0]], [[0, 0 :: real]]] \<and>
   broadcast (*) ([[[0, 0]], [[0, 0 :: real]]] ! 1) ([[[0, 0]], [[0, 0]]] ! 0) = Inr [[0, 0]] \<and>
   get_plane_from_pcd example_cloud example_first_inlier 0 [[0, 0]] = Inl ValueError \<and>
   extract_planes_con example_cloud example_first_inlier (Suc 0) [[[0, 0]], [[0, 0]]] 0 1 0 (Fin (1 / 2)) =
     ([[[0, 0]], [[0, 0]], [[0, 0]]], Raises ValueError)"
proof -
  have d: "(1 :: nat) < length [[[0, 0]], [[0, 0 :: real]]]" by simp
  have b: "broadcast (*) ([[[0, 0]], [[0, 0 :: real]]] ! 1) ([[[0, 0]], [[0, 0]]] ! 0) = Inr [[0, 0]]"
    by (simp add: broadcast_def bdim_def bidx_def shape_def)
  have f: "get_plane_from_pcd example_cloud example_first_inlier 0 [[0, 0]] = Inl ValueError"
    by (simp add: run_defs)
  from extract_planes_con_zero_start_enters_loop
         [where h = "[[[0, 0]], [[0, 0]]]" and map_arr = 0 and depth_map = 1
            and cr = example_cloud and sg = example_first_inlier and fuel = 0 and r = "1 / 2"
            and masked = "[[0, 0]]" and e = ValueError,
          THEN conjunct2, THEN conjunct2, THEN conjunct1, THEN mp, THEN mp, THEN mp, OF d b f]
  have "extract_planes_con example_cloud example_first_inlier (Suc 0) [[[0, 0]], [[0, 0]]] 0 1 0
          (Fin (1 / 2)) = ([[[0, 0]], [[0, 0]], [[0, 0]]], Raises ValueError)"
    by simp
  with d b f show ?thesis by simp
qed

text \<open>
  C1 as stated fails. A region without points and \<open>start_size = 0\<close>: the body runs and
  \<^verbatim>\<open>np.max\<close> raises on the empty point cloud. A region with one point and
  \<open>start_size = 0\<close>: the call returns a list of one plane.
\<close>

theorem extract_planes_con_zero_start_not_empty:
  "extract_planes_con example_cloud example_first_inlier (Suc 0) [[[0]], [[0]]] 0 1 0 (Fin 1) =
     ([[[0]], [[0]], [[0]]], Raises ValueError) \<and>
   extract_planes_con example_cloud example_first_inlier (Suc (Suc 0)) [[[1]], [[2]]] 0 1 0 (Fin 1) =
     ([[[1]], [[2]], [[0]], [[1]]], Returns [(3, [0, 0, 1, 0])])"
  by (simp add: run_defs)











end
